theory Spec2Isabelle
  imports Main "HOL-Library.Sublist"
begin

chapter \<open>The Arc Viewer components\<close>

text \<open>
  The browser components under \<^verbatim>\<open>public/components\<close>: the tree renderer
  (\<^verbatim>\<open>arc-tree-viewer.js\<close>), the search index (\<^verbatim>\<open>arc-search.js\<close>), the file
  linker (\<^verbatim>\<open>arc-file-linker.js\<close>), the clipboard helper (\<^verbatim>\<open>arc-copy.js\<close>) and the
  live watcher (\<^verbatim>\<open>arc-watcher.js\<close>).
\<close>

section \<open>JavaScript strings and numbers\<close>

text \<open>
  A JavaScript string is modelled by the \<^typ>\<open>string\<close> of the bytes of its UTF-8 encoding.
  Every delimiter the components look for (\<^verbatim>\<open>-\<close>, \<^verbatim>\<open>/\<close>, digits, the markup
  characters) is ASCII, and an ASCII byte never occurs inside the encoding of another
  character, so the byte-wise functions below find what the JavaScript ones find. White
  space beyond ASCII is recognised by its byte sequence. \<^verbatim>\<open>undefined\<close> and
  \<^verbatim>\<open>null\<close> are \<^const>\<open>None\<close> of an option type.
\<close>

subsection \<open>Number to string\<close>

definition digit_char :: "nat \<Rightarrow> char" where
  "digit_char d = ''0123456789'' ! d"

text \<open>
  \<^verbatim>\<open>`${idx}`\<close> for an array index: the decimal digits, most significant first, no sign
  and no leading zero.
\<close>

fun toString_nat :: "nat \<Rightarrow> string" where
  "toString_nat n =
     (if n < 10 then [digit_char n]
      else toString_nat (n div 10) @ [digit_char (n mod 10)])"

declare toString_nat.simps [simp del]

text \<open>The decimal digits.\<close>

definition is_decimal :: "char \<Rightarrow> bool" where
  "is_decimal c = (c \<in> set ''0123456789'')"

subsection \<open>White space\<close>

text \<open>
  The white space and line terminators of ECMAScript (what \<^verbatim>\<open>trim\<close>, \<^verbatim>\<open>\s\<close> and
  \<^verbatim>\<open>parseInt\<close> skip), each as its UTF-8 bytes: TAB, LF, VT, FF, CR, SP, U+00A0, U+1680,
  U+2000 to U+200A, U+2028, U+2029, U+202F, U+205F, U+3000, U+FEFF.
\<close>

definition js_whitespace :: "string list" where
  "js_whitespace =
     [[CHR 0x09], [CHR 0x0A], [CHR 0x0B], [CHR 0x0C], [CHR 0x0D], [CHR 0x20],
      [CHR 0xC2, CHR 0xA0],
      [CHR 0xE1, CHR 0x9A, CHR 0x80],
      [CHR 0xE2, CHR 0x80, CHR 0x80], [CHR 0xE2, CHR 0x80, CHR 0x81],
      [CHR 0xE2, CHR 0x80, CHR 0x82], [CHR 0xE2, CHR 0x80, CHR 0x83],
      [CHR 0xE2, CHR 0x80, CHR 0x84], [CHR 0xE2, CHR 0x80, CHR 0x85],
      [CHR 0xE2, CHR 0x80, CHR 0x86], [CHR 0xE2, CHR 0x80, CHR 0x87],
      [CHR 0xE2, CHR 0x80, CHR 0x88], [CHR 0xE2, CHR 0x80, CHR 0x89],
      [CHR 0xE2, CHR 0x80, CHR 0x8A],
      [CHR 0xE2, CHR 0x80, CHR 0xA8], [CHR 0xE2, CHR 0x80, CHR 0xA9],
      [CHR 0xE2, CHR 0x80, CHR 0xAF],
      [CHR 0xE2, CHR 0x81, CHR 0x9F],
      [CHR 0xE3, CHR 0x80, CHR 0x80],
      [CHR 0xEF, CHR 0xBB, CHR 0xBF]]"

text \<open>The number of bytes of the white-space character that \<open>s\<close> starts with, 0 if none.\<close>

definition ws_len :: "string \<Rightarrow> nat" where
  "ws_len s = (case find (\<lambda>w. prefix w s) js_whitespace of None \<Rightarrow> 0 | Some w \<Rightarrow> length w)"

lemma ws_len_le: "ws_len s \<le> length s"
  by (auto simp: ws_len_def prefix_length_le split: option.splits dest!: find_Some_iff [THEN iffD1])

function trimStart :: "string \<Rightarrow> string" where
  "trimStart s = (if ws_len s = 0 then s else trimStart (drop (ws_len s) s))"
  by pat_completeness auto
termination
proof (relation "measure length")
  fix s :: string
  assume "ws_len s \<noteq> 0"
  moreover have "ws_len s \<le> length s" by (rule ws_len_le)
  ultimately show "(drop (ws_len s) s, s) \<in> measure length" by simp
qed simp

declare trimStart.simps [simp del]

lemma trimStart_length: "length (trimStart s) \<le> length s"
proof (induction s rule: trimStart.induct)
  case (1 s)
  show ?case
  proof (cases "ws_len s = 0")
    case True
    then show ?thesis by (simp add: trimStart.simps)
  next
    case False
    with "1" have "length (trimStart (drop (ws_len s) s)) \<le> length (drop (ws_len s) s)"
      by simp
    with False show ?thesis by (subst trimStart.simps) simp
  qed
qed

lemma trimStart_shorter: "ws_len s \<noteq> 0 \<Longrightarrow> length (trimStart s) < length s"
proof -
  assume ws: "ws_len s \<noteq> 0"
  have "length (trimStart (drop (ws_len s) s)) \<le> length (drop (ws_len s) s)"
    by (rule trimStart_length)
  moreover have "ws_len s \<le> length s" by (rule ws_len_le)
  ultimately show ?thesis using ws by (subst trimStart.simps) simp
qed

text \<open>The same from the end of the string.\<close>

definition ws_len_end :: "string \<Rightarrow> nat" where
  "ws_len_end s = (case find (\<lambda>w. suffix w s) js_whitespace of None \<Rightarrow> 0 | Some w \<Rightarrow> length w)"

lemma ws_len_end_le: "ws_len_end s \<le> length s"
  by (auto simp: ws_len_end_def suffix_length_le split: option.splits dest!: find_Some_iff [THEN iffD1])

function trimEnd :: "string \<Rightarrow> string" where
  "trimEnd s = (if ws_len_end s = 0 then s else trimEnd (take (length s - ws_len_end s) s))"
  by pat_completeness auto
termination
proof (relation "measure length")
  fix s :: string
  assume "ws_len_end s \<noteq> 0"
  moreover have "ws_len_end s \<le> length s" by (rule ws_len_end_le)
  ultimately show "(take (length s - ws_len_end s) s, s) \<in> measure length" by simp
qed simp

declare trimEnd.simps [simp del]

text \<open>\<^verbatim>\<open>String.prototype.trim\<close>.\<close>

definition trim :: "string \<Rightarrow> string" where
  "trim s = trimEnd (trimStart s)"

subsection \<open>Splitting\<close>

text \<open>
  \<^verbatim>\<open>s.split(/\s+/)\<close>: the pieces between the maximal runs of white space; a run at
  either end leaves an empty piece there, and the empty string gives one empty piece.
  \<open>cur\<close> is the piece read so far.
\<close>

function split_ws_from :: "string \<Rightarrow> string \<Rightarrow> string list" where
  "split_ws_from cur [] = [cur]"
| "split_ws_from cur (c # cs) =
     (if ws_len (c # cs) = 0 then split_ws_from (cur @ [c]) cs
      else cur # split_ws_from [] (trimStart (c # cs)))"
  by pat_completeness auto
termination
proof (relation "measure (\<lambda>(cur, s). length s)")
  fix cur :: string and c cs
  assume "ws_len (c # cs) \<noteq> 0"
  then show "(([], trimStart (c # cs)), (cur, c # cs)) \<in> measure (\<lambda>(cur, s). length s)"
    using trimStart_shorter [of "c # cs"] by simp
qed simp_all

definition split_whitespace :: "string \<Rightarrow> string list" where
  "split_whitespace s = split_ws_from [] s"

text \<open>
  \<^verbatim>\<open>s.split(sep)\<close> for a separator of one ASCII character: the pieces between the
  separators, empty pieces kept; the empty string gives one empty piece.
\<close>

fun split_on :: "char \<Rightarrow> string \<Rightarrow> string list" where
  "split_on sep [] = [[]]"
| "split_on sep (c # cs) =
     (if c = sep then [] # split_on sep cs
      else (case split_on sep cs of [] \<Rightarrow> [[c]] | p # ps \<Rightarrow> (c # p) # ps))"

text \<open>\<^verbatim>\<open>parts.join(sep)\<close>.\<close>

fun join :: "string \<Rightarrow> string list \<Rightarrow> string" where
  "join sep [] = []"
| "join sep [p] = p"
| "join sep (p # q # ps) = p @ sep @ join sep (q # ps)"

subsection \<open>Case and containment\<close>

text \<open>
  \<^verbatim>\<open>toLowerCase\<close> on ASCII text: the 26 capital letters are lowered and every other
  byte stays. It is the JavaScript function on strings of ASCII characters only; the case
  mapping of letters beyond ASCII is not modelled, and the theorems apply this function
  to ASCII text only.
\<close>

definition lower_char :: "char \<Rightarrow> char" where
  "lower_char c =
     (let n = of_char c :: nat in if 65 \<le> n \<and> n \<le> 90 then char_of (n + 32) else c)"

definition toLowerCase :: "string \<Rightarrow> string" where
  "toLowerCase s = map lower_char s"

text \<open>\<^verbatim>\<open>s.includes(q)\<close>: \<open>q\<close> occurs in \<open>s\<close> at some position.\<close>

fun includes_str :: "string \<Rightarrow> string \<Rightarrow> bool" where
  "includes_str [] q = (q = [])"
| "includes_str (c # cs) q = (prefix q (c # cs) \<or> includes_str cs q)"

subsection \<open>parseInt\<close>

text \<open>The value of a digit or letter as a digit, in any radix up to 36.\<close>

definition digit_value :: "char \<Rightarrow> nat option" where
  "digit_value c =
     (let n = of_char c :: nat in
      if 48 \<le> n \<and> n \<le> 57 then Some (n - 48)
      else if 97 \<le> n \<and> n \<le> 122 then Some (n - 87)
      else if 65 \<le> n \<and> n \<le> 90 then Some (n - 55)
      else None)"

definition is_digit :: "nat \<Rightarrow> char \<Rightarrow> bool" where
  "is_digit radix c = (case digit_value c of None \<Rightarrow> False | Some d \<Rightarrow> d < radix)"

definition digits_value :: "nat \<Rightarrow> string \<Rightarrow> nat" where
  "digits_value radix ds = foldl (\<lambda>acc c. acc * radix + the (digit_value c)) 0 ds"

text \<open>
  \<^verbatim>\<open>parseInt(str)\<close> with no radix given: leading white space is skipped, a sign is
  read, a prefix \<^verbatim>\<open>0x\<close> or \<^verbatim>\<open>0X\<close> selects radix 16, and the longest run of digits
  is the value; anything after it is ignored. With no digit the result is \<^verbatim>\<open>NaN\<close>,
  here \<^const>\<open>None\<close>. The value is an \<^typ>\<open>int\<close>: a JavaScript number holds it exactly
  below \<open>2 ^ 53\<close>, which is beyond every array length.
\<close>

definition parseInt :: "string \<Rightarrow> int option" where
  "parseInt str =
     (let s = trimStart str;
          sign = (if prefix ''-'' s then - 1 else 1);
          s1 = (if prefix ''-'' s \<or> prefix ''+'' s then drop 1 s else s);
          radix = (if prefix ''0x'' s1 \<or> prefix ''0X'' s1 then 16 else 10);
          s2 = (if prefix ''0x'' s1 \<or> prefix ''0X'' s1 then drop 2 s1 else s1);
          z = takeWhile (is_digit radix) s2
      in if z = [] then None else Some (sign * int (digits_value radix z)))"

text \<open>
  \<^verbatim>\<open>arr[idx]\<close> for the number that \<^verbatim>\<open>parseInt\<close> returned: the element at a position
  inside the array, \<^verbatim>\<open>undefined\<close> for \<^verbatim>\<open>NaN\<close>, a negative number or a position past
  the end.
\<close>

definition js_index :: "'a list \<Rightarrow> int option \<Rightarrow> 'a option" where
  "js_index xs idx =
     (case idx of
        None \<Rightarrow> None
      | Some i \<Rightarrow> if 0 \<le> i \<and> i < int (length xs) then Some (xs ! nat i) else None)"

section \<open>Errors\<close>

text \<open>
  What a JavaScript operation throws: a \<^verbatim>\<open>TypeError\<close> (a property of
  \<^verbatim>\<open>undefined\<close> is read), a \<^verbatim>\<open>ReferenceError\<close> (a variable that is not in scope is
  read), the DOM's \<^verbatim>\<open>NotFoundError\<close> (\<^verbatim>\<open>removeChild\<close> of a node that is not a
  child), or an error of the platform (a rejected clipboard write, a failing
  \<^verbatim>\<open>execCommand\<close>).
\<close>

datatype js_error = TypeError | ReferenceError | NotFoundError | PlatformError

section \<open>The Manifest Model\<close>

text \<open>
  The parsed manifest: \<^verbatim>\<open>{ routes: [{method, path, functionName}], lambdas: [{name}],
  tables: [{name, attributes}] }\<close>. A list that the object does not have is
  \<^const>\<open>None\<close>. A field carries the name of its record in front, since \<^verbatim>\<open>name\<close>
  is a property of two of them.
\<close>

record route =
  route_method :: string
  route_path :: string
  route_functionName :: string

record lambda =
  lambda_name :: string

record table =
  table_name :: string
  table_attributes :: "string list"

record arcData =
  routes :: "route list option"
  lambdas :: "lambda list option"
  tables :: "table list option"

section \<open>The tree renderer (arc-tree-viewer.js)\<close>

record toggleStates =
  toggle_routes :: bool
  toggle_lambdas :: bool
  toggle_tables :: bool

text \<open>
  A node of the tree, with the properties \<^verbatim>\<open>buildTree\<close> gives it: \<^verbatim>\<open>id\<close>,
  \<^verbatim>\<open>name\<close>, \<^verbatim>\<open>path\<close>, \<^verbatim>\<open>method\<close>, \<^verbatim>\<open>functionName\<close>, \<^verbatim>\<open>type\<close> and
  \<^verbatim>\<open>children\<close>; a property the node does not have is \<^const>\<open>None\<close>.
\<close>

datatype tree_node =
  TreeNode (node_id: string) (node_name: string) (node_path: "string option")
    (node_method: "string option") (node_functionName: "string option")
    (node_type: "string option") (node_children: "tree_node list option")

definition route_node :: "nat \<Rightarrow> route \<Rightarrow> tree_node" where
  "route_node idx route =
     TreeNode (''route-'' @ toString_nat idx)
       (route_method route @ '' '' @ route_path route)
       (Some (route_path route)) (Some (route_method route))
       (Some (route_functionName route)) (Some ''route'') None"

definition lambda_node :: "nat \<Rightarrow> lambda \<Rightarrow> tree_node" where
  "lambda_node idx lambda =
     TreeNode (''lambda-'' @ toString_nat idx) (lambda_name lambda)
       None None None (Some ''lambda'') None"

definition table_node :: "nat \<Rightarrow> table \<Rightarrow> tree_node" where
  "table_node idx table =
     TreeNode (''table-'' @ toString_nat idx) (table_name table)
       None None None (Some ''table'') None"

text \<open>\<^verbatim>\<open>arr.map((x, idx) => f(idx, x))\<close>.\<close>

definition map_indexed :: "(nat \<Rightarrow> 'a \<Rightarrow> 'b) \<Rightarrow> 'a list \<Rightarrow> 'b list" where
  "map_indexed f xs = map (\<lambda>(idx, x). f idx x) (enumerate 0 xs)"

definition group_node :: "string \<Rightarrow> string \<Rightarrow> tree_node list \<Rightarrow> tree_node" where
  "group_node i n cs = TreeNode i n None None None None (Some cs)"

text \<open>
  \<^verbatim>\<open>buildTree()\<close>, a function of \<^verbatim>\<open>this.arcData\<close> and \<^verbatim>\<open>this.toggleStates\<close>. The
  test \<^verbatim>\<open>this.arcData.routes?.length > 0\<close> is false for a missing list.
\<close>

definition buildTree :: "arcData \<Rightarrow> toggleStates \<Rightarrow> tree_node list" where
  "buildTree arc t =
     (case routes arc of
        None \<Rightarrow> []
      | Some rs \<Rightarrow>
          if toggle_routes t \<and> 0 < length rs
          then [group_node ''routes-group'' ''Routes'' (map_indexed route_node rs)]
          else [])
     @ (case lambdas arc of
        None \<Rightarrow> []
      | Some ls \<Rightarrow>
          if toggle_lambdas t \<and> 0 < length ls
          then [group_node ''lambdas-group'' ''Lambdas'' (map_indexed lambda_node ls)]
          else [])
     @ (case tables arc of
        None \<Rightarrow> []
      | Some ts \<Rightarrow>
          if toggle_tables t \<and> 0 < length ts
          then [group_node ''tables-group'' ''Tables'' (map_indexed table_node ts)]
          else [])"

text \<open>
  What \<^verbatim>\<open>getNode\<close> returns: \<^verbatim>\<open>null\<close> (\<^const>\<open>None\<close>) or an object
  \<^verbatim>\<open>{ type, data }\<close> whose \<^verbatim>\<open>data\<close> is an element of one of the three lists, or
  \<^verbatim>\<open>undefined\<close> (\<^const>\<open>None\<close>).
\<close>

datatype entity = RouteData route | LambdaData lambda | TableData table

record node_ref =
  ref_type :: string
  ref_data :: "entity option"

text \<open>
  \<^verbatim>\<open>parseInt(nodeId.split('-')[1])\<close>: the second piece, and \<^verbatim>\<open>undefined\<close> (which
  \<^verbatim>\<open>parseInt\<close> reads as the string \<^verbatim>\<open>undefined\<close>) when there is none.
\<close>

definition id_index :: "string \<Rightarrow> int option" where
  "id_index nodeId =
     (case split_on CHR ''-'' nodeId of
        p0 # p1 # ps \<Rightarrow> parseInt p1
      | _ \<Rightarrow> parseInt ''undefined'')"

definition or_empty :: "'a list option \<Rightarrow> 'a list" where
  "or_empty xs = (case xs of None \<Rightarrow> [] | Some ys \<Rightarrow> ys)"

text \<open>
  \<^verbatim>\<open>getNode(nodeId)\<close> for a string \<^verbatim>\<open>nodeId\<close>; \<^const>\<open>or_empty\<close> is
  \<^verbatim>\<open>this.arcData.routes || []\<close>. No operation of it throws on a string: the result
  type has no error.
\<close>

definition getNode :: "arcData \<Rightarrow> string \<Rightarrow> node_ref option" where
  "getNode arc nodeId =
     (let rs = or_empty (routes arc);
          ls = or_empty (lambdas arc);
          ts = or_empty (tables arc)
      in if prefix ''route-'' nodeId
         then Some \<lparr>ref_type = ''route'',
                    ref_data = map_option RouteData (js_index rs (id_index nodeId))\<rparr>
         else if prefix ''lambda-'' nodeId
         then Some \<lparr>ref_type = ''lambda'',
                    ref_data = map_option LambdaData (js_index ls (id_index nodeId))\<rparr>
         else if prefix ''table-'' nodeId
         then Some \<lparr>ref_type = ''table'',
                    ref_data = map_option TableData (js_index ts (id_index nodeId))\<rparr>
         else None)"

subsection \<open>Rendering\<close>

text \<open>
  \<^verbatim>\<open>escapeHtml(text)\<close> sets \<^verbatim>\<open>div.textContent\<close> and reads \<^verbatim>\<open>div.innerHTML\<close>: the
  browser's serialisation of a text node, which replaces \<^verbatim>\<open>&\<close>, \<^verbatim>\<open><\<close>, \<^verbatim>\<open>>\<close>
  and the no-break space U+00A0 (bytes C2 A0) by their entities and leaves every other
  character, the double quote among them, as it is.
\<close>

definition escape_char :: "char \<Rightarrow> string" where
  "escape_char c =
     (if c = CHR ''&'' then ''&amp;''
      else if c = CHR ''<'' then ''&lt;''
      else if c = CHR ''>'' then ''&gt;''
      else [c])"

fun escapeHtml :: "string \<Rightarrow> string" where
  "escapeHtml [] = []"
| "escapeHtml [c] = escape_char c"
| "escapeHtml (c # d # cs) =
     (if c = CHR 0xC2 \<and> d = CHR 0xA0 then ''&nbsp;'' @ escapeHtml cs
      else escape_char c @ escapeHtml (d # cs))"

text \<open>
  The glyphs of the markup, as their UTF-8 bytes: U+25BC and U+2022 (the toggles), U+1F4CB
  (the copy control), U+1F6E3 U+FE0F, U+26A1, U+1F4CA and U+1F4C4 (the icons).
\<close>

definition glyph_toggle :: string where
  "glyph_toggle = [CHR 0xE2, CHR 0x96, CHR 0xBC]"

definition glyph_bullet :: string where
  "glyph_bullet = [CHR 0xE2, CHR 0x80, CHR 0xA2]"

definition glyph_clipboard :: string where
  "glyph_clipboard = [CHR 0xF0, CHR 0x9F, CHR 0x93, CHR 0x8B]"

definition glyph_route :: string where
  "glyph_route = [CHR 0xF0, CHR 0x9F, CHR 0x9B, CHR 0xA3, CHR 0xEF, CHR 0xB8, CHR 0x8F]"

definition glyph_lambda :: string where
  "glyph_lambda = [CHR 0xE2, CHR 0x9A, CHR 0xA1]"

definition glyph_table :: string where
  "glyph_table = [CHR 0xF0, CHR 0x9F, CHR 0x93, CHR 0x8A]"

definition glyph_default :: string where
  "glyph_default = [CHR 0xF0, CHR 0x9F, CHR 0x93, CHR 0x84]"

text \<open>
  \<^verbatim>\<open>getNodeIcon(type)\<close> is \<^verbatim>\<open>icons[type] || default\<close>. The object \<^verbatim>\<open>icons\<close> has
  three keys of its own; under any other name the lookup reaches what \<^verbatim>\<open>icons\<close>
  inherits from \<^verbatim>\<open>Object.prototype\<close> (\<^verbatim>\<open>constructor\<close>, \<^verbatim>\<open>toString\<close> and the like, all
  truthy). \<open>inherited name\<close> is the text such an inherited property has in a template
  literal, and \<^const>\<open>None\<close> when there is none under the name. A node without a type
  (a group) is looked up under \<^verbatim>\<open>undefined\<close> and gets the default.
\<close>

definition getNodeIcon :: "(string \<Rightarrow> string option) \<Rightarrow> string option \<Rightarrow> string" where
  "getNodeIcon inherited t =
     (case t of
        None \<Rightarrow> glyph_default
      | Some name \<Rightarrow>
          if name = ''route'' then glyph_route
          else if name = ''lambda'' then glyph_lambda
          else if name = ''table'' then glyph_table
          else (case inherited name of None \<Rightarrow> glyph_default | Some shown \<Rightarrow> shown))"

text \<open>\<^verbatim>\<open>`${v}`\<close> for a property that may be missing.\<close>

definition template_str :: "string option \<Rightarrow> string" where
  "template_str v = (case v of None \<Rightarrow> ''undefined'' | Some s \<Rightarrow> s)"

text \<open>The line break and the indentation inside the two template literals.\<close>

definition nl :: "nat \<Rightarrow> string" where
  "nl indent = CHR 0x0A # replicate indent CHR '' ''"

text \<open>
  \<^verbatim>\<open>renderNode(node, depth)\<close> and \<^verbatim>\<open>renderTreeNodes(nodes, depth)\<close>, which call each
  other; \<open>render_nodes\<close> is \<^verbatim>\<open>nodes.map(node => this.renderNode(node, depth)).join('')\<close>.
  The last interpolation of \<^verbatim>\<open>renderNode\<close> tests \<^verbatim>\<open>hasChildren\<close> again, here by
  cases on \<^verbatim>\<open>node.children\<close>.
\<close>

fun renderNode :: "(string \<Rightarrow> string option) \<Rightarrow> tree_node \<Rightarrow> nat \<Rightarrow> string"
  and render_nodes :: "(string \<Rightarrow> string option) \<Rightarrow> tree_node list \<Rightarrow> nat \<Rightarrow> string"
  and renderTreeNodes :: "(string \<Rightarrow> string option) \<Rightarrow> tree_node list \<Rightarrow> nat \<Rightarrow> string" where
  \<open>renderNode inherited (TreeNode nid name path method functionName ty children) depth =
     (let hasChildren = (case children of None \<Rightarrow> False | Some cs \<Rightarrow> 0 < length cs);
          icon = getNodeIcon inherited ty;
          isGroup = (nid \<noteq> [] \<and> includes_str nid ''-group'')
      in nl 6 @ ''<li class="tree-node '' @ (if isGroup then ''tree-group'' else '''')
           @ ''" data-node-id="'' @ nid @ ''">''
         @ nl 8 @ ''<div class="tree-node-content" data-node-id="'' @ nid @ ''">''
         @ nl 10 @ (if hasChildren then ''<span class="tree-toggle">'' @ glyph_toggle @ ''</span>''
                    else ''<span class="tree-toggle-empty">'' @ glyph_bullet @ ''</span>'')
         @ nl 10 @ ''<span class="tree-icon">'' @ icon @ ''</span>''
         @ nl 10 @ ''<span class="tree-label">'' @ escapeHtml name @ ''</span>''
         @ nl 10 @ (if \<not> isGroup \<and> ty = Some ''route''
                    then ''<button class="copy-btn" data-value="'' @ template_str method
                         @ '' '' @ template_str path @ ''" title="Copy route">''
                         @ glyph_clipboard @ ''</button>''
                    else '''')
         @ nl 8 @ ''</div>''
         @ nl 8 @ (case children of
                     None \<Rightarrow> []
                   | Some cs \<Rightarrow>
                       if 0 < length cs
                       then ''<div class="tree-children">'' @ renderTreeNodes inherited cs (depth + 1)
                            @ ''</div>''
                       else [])
         @ nl 6 @ ''</li>''
         @ nl 4)\<close>
| \<open>render_nodes inherited [] depth = []\<close>
| \<open>render_nodes inherited (node # nodes) depth =
     renderNode inherited node depth @ render_nodes inherited nodes depth\<close>
| \<open>renderTreeNodes inherited nodes depth =
     (if nodes = [] then ''<div class="tree-empty">No items</div>''
      else nl 6 @ ''<ul class="tree-list" style="margin-left: '' @ toString_nat (depth * 20)
           @ ''px;">''
           @ nl 8 @ render_nodes inherited nodes depth
           @ nl 6 @ ''</ul>''
           @ nl 4)\<close>

subsection \<open>The copy control of a route node\<close>

text \<open>
  The click listener that \<^verbatim>\<open>setupEventListeners\<close> gives every \<^verbatim>\<open>.copy-btn\<close>. The
  button has its text and its \<^verbatim>\<open>data-value\<close>. A timer callback is a closure: it is kept
  with the variables of the block it was created in, by name, and a variable that is
  declared in another block is not among them. The labels are U+2713 and U+2717 (as
  their UTF-8 bytes) followed by a word.
\<close>

record copy_button =
  textContent :: string
  data_value :: string

record page =
  button :: copy_button
  page_clipboard :: "string option"
  pending :: "(nat \<times> (string \<rightharpoonup> string)) list"

definition copied_label :: string where
  "copied_label = [CHR 0xE2, CHR 0x9C, CHR 0x93] @ '' Copied!''"

definition failed_label :: string where
  "failed_label = [CHR 0xE2, CHR 0x9C, CHR 0x97] @ '' Failed''"

text \<open>
  What \<^verbatim>\<open>await navigator.clipboard.writeText(value)\<close> comes to: \<^verbatim>\<open>navigator.clipboard\<close>
  is undefined (a \<^verbatim>\<open>TypeError\<close>), the promise rejects, or it resolves.
\<close>

datatype write_outcome = ClipboardMissing | WriteRejects | WriteResolves

text \<open>
  The listener. In the \<^verbatim>\<open>try\<close> block, after the write, \<^verbatim>\<open>const originalText\<close> is
  declared and the timer callback is created with it in scope. The callback of the
  \<^verbatim>\<open>catch\<close> block is created in a block where \<^verbatim>\<open>originalText\<close> is not declared.
\<close>

definition copy_click :: "write_outcome \<Rightarrow> page \<Rightarrow> page" where
  "copy_click outcome pg =
     (let value = data_value (button pg)
      in case outcome of
           WriteResolves \<Rightarrow>
             (let originalText = textContent (button pg);
                  scope = [''value'' \<mapsto> value, ''originalText'' \<mapsto> originalText]
              in pg\<lparr>page_clipboard := Some value,
                     button := (button pg)\<lparr>textContent := copied_label\<rparr>,
                     pending := pending pg @ [(2000, scope)]\<rparr>)
         | _ \<Rightarrow>
             (let scope = [''value'' \<mapsto> value]
              in pg\<lparr>button := (button pg)\<lparr>textContent := failed_label\<rparr>,
                     pending := pending pg @ [(2000, scope)]\<rparr>))"

text \<open>
  The first pending timer fires; its callback is \<^verbatim>\<open>e.target.textContent = originalText\<close>.
  Reading a variable that is not in scope throws a \<^verbatim>\<open>ReferenceError\<close>, and the
  assignment does not happen.
\<close>

definition timer_fires :: "page \<Rightarrow> js_error option \<times> page" where
  "timer_fires pg =
     (case pending pg of
        [] \<Rightarrow> (None, pg)
      | (delay, scope) # rest \<Rightarrow>
          (case scope ''originalText'' of
             None \<Rightarrow> (Some ReferenceError, pg\<lparr>pending := rest\<rparr>)
           | Some originalText \<Rightarrow>
               (None, pg\<lparr>pending := rest,
                          button := (button pg)\<lparr>textContent := originalText\<rparr>\<rparr>)))"

section \<open>The file linker (arc-file-linker.js)\<close>

text \<open>
  \<^verbatim>\<open>routeToPath(routeDefinition)\<close>. The method is taken from the definition only when
  it splits into exactly two parts; otherwise the method is \<^verbatim>\<open>get\<close> and the path is the
  whole (untrimmed) definition. \<^verbatim>\<open>filter(Boolean)\<close> drops the empty segments.
\<close>

definition routeToPath :: "string \<Rightarrow> string" where
  "routeToPath routeDefinition =
     (let parts = split_whitespace (trim routeDefinition);
          method = (if length parts = 2 then toLowerCase (parts ! 0) else ''get'');
          path = (if length parts = 2 then parts ! 1 else routeDefinition);
          pathSegments =
            toLowerCase (join ''-'' (filter (\<lambda>seg. seg \<noteq> []) (split_on CHR ''/'' path)))
      in ''src/http/'' @ method @ ''-'' @ pathSegments @ ''/index.mjs'')"

text \<open>\<^verbatim>\<open>getLinkPath(nodeType, nodeName)\<close>; the \<^verbatim>\<open>default\<close> branch returns \<^verbatim>\<open>null\<close>.\<close>

definition getLinkPath :: "string \<Rightarrow> string \<Rightarrow> string option" where
  "getLinkPath nodeType nodeName =
     (if nodeType = ''route'' then Some (routeToPath nodeName)
      else if nodeType = ''lambda'' then Some (''src/lambdas/'' @ nodeName)
      else if nodeType = ''table'' then Some (''src/tables/'' @ nodeName @ ''.ts'')
      else None)"

section \<open>The search index (arc-search.js)\<close>

record search_item =
  item_type :: string
  item_name :: string
  item_path :: "string option"
  item_method :: "string option"
  item_functionName :: "string option"
  searchText :: string




text \<open>
  The fields of an \<^verbatim>\<open>ArcSearch\<close> that \<^verbatim>\<open>init\<close> and \<^verbatim>\<open>search\<close> write. The fuzzy
  engine (Fuse.js) is not part of the repository: a Fuse instance is modelled by the item
  list it was built over, and its \<^verbatim>\<open>search\<close> is a parameter of \<open>search\<close> below.
  \<^verbatim>\<open>this.items\<close> is \<^verbatim>\<open>undefined\<close> until \<^verbatim>\<open>init\<close> sets it.
\<close>

record arcSearch =
  fuse :: "search_item list option"
  items :: "search_item list option"
  lastResults :: "search_item list option"







section \<open>The clipboard helper (arc-copy.js)\<close>

text \<open>
  The part of the page that \<^verbatim>\<open>ArcCopy\<close> touches. An element has an identity (a number,
  new for every \<^verbatim>\<open>createElement\<close>); the helper creates hidden text areas and toasts.
\<close>

datatype element =
  Textarea (elem_id: nat) (elem_value: string)
| Toast (elem_id: nat) (toast_class: string) (toast_text: string)
| OtherElement (elem_id: nat)

text \<open>What a timer set by \<^verbatim>\<open>showToast\<close> will do when it fires.\<close>

datatype timer_action = ToastShow nat | ToastHide nat

text \<open>
  The document: the children of \<^verbatim>\<open>document.body\<close>, the children of every other
  element that can hold toasts (by its number), the next fresh element number, the system
  clipboard, and the timers set so far with their delays in milliseconds.
\<close>

record dom =
  body :: "element list"
  others :: "nat \<Rightarrow> element list"
  next_id :: nat
  clipboard :: "string option"
  timers :: "(nat \<times> timer_action) list"

text \<open>
  What the browser does, which the code cannot know: whether \<^verbatim>\<open>navigator.clipboard\<close>
  exists, whether the context is secure, whether \<^verbatim>\<open>writeText\<close> resolves or rejects, and
  whether \<^verbatim>\<open>document.execCommand('copy')\<close> throws or returns a boolean.
\<close>

record platform =
  has_clipboard :: bool
  isSecureContext :: bool
  writeText_resolves :: bool
  execCommand_copy :: "js_error + bool"

text \<open>The fields of an \<^verbatim>\<open>ArcCopy\<close>; \<^verbatim>\<open>toastContainer\<close> is an element number or \<^verbatim>\<open>null\<close>.\<close>

record arcCopy =
  toastDuration :: nat
  toastContainer :: "nat option"

text \<open>\<^verbatim>\<open>parent.appendChild(child)\<close> and \<^verbatim>\<open>document.body.removeChild(child)\<close>; the latter
  throws when the node is not a child.\<close>

definition appendChild_body :: "element \<Rightarrow> dom \<Rightarrow> dom" where
  "appendChild_body e d = d\<lparr>body := body d @ [e]\<rparr>"

definition appendChild_other :: "nat \<Rightarrow> element \<Rightarrow> dom \<Rightarrow> dom" where
  "appendChild_other c e d = d\<lparr>others := (others d)(c := others d c @ [e])\<rparr>"

definition removeChild_body :: "element \<Rightarrow> dom \<Rightarrow> js_error + dom" where
  "removeChild_body e d =
     (if e \<in> set (body d) then Inr (d\<lparr>body := remove1 e (body d)\<rparr>) else Inl NotFoundError)"

text \<open>
  \<^verbatim>\<open>showToast(message, type)\<close>, up to its return: the toast is created and appended to
  \<^verbatim>\<open>this.toastContainer || document.body\<close>, and two timers are set. None of its steps
  throws.
\<close>

definition showToast :: "arcCopy \<Rightarrow> string \<Rightarrow> string \<Rightarrow> dom \<Rightarrow> dom" where
  "showToast obj message type d =
     (let toast = Toast (next_id d) (''arc-toast arc-toast-'' @ type) message;
          d1 = d\<lparr>next_id := next_id d + 1\<rparr>;
          d2 = (case toastContainer obj of
                  None \<Rightarrow> appendChild_body toast d1
                | Some c \<Rightarrow> appendChild_other c toast d1)
      in d2\<lparr>timers := timers d2 @ [(10, ToastShow (elem_id toast)),
                                     (toastDuration obj, ToastHide (elem_id toast))]\<rparr>)"

text \<open>
  The \<^verbatim>\<open>try\<close> block of \<^verbatim>\<open>copyUsingExecCommand\<close> with its \<^verbatim>\<open>catch\<close>: the value
  returned and the document. A successful \<^verbatim>\<open>execCommand('copy')\<close> puts the selected
  text on the clipboard.
\<close>

definition execCommand_try :: "platform \<Rightarrow> arcCopy \<Rightarrow> string \<Rightarrow> dom \<Rightarrow> bool \<times> dom" where
  "execCommand_try p obj text d =
     (case execCommand_copy p of
        Inr successful \<Rightarrow>
          if successful
          then (True, showToast obj (''Copied: '' @ text) ''success'' (d\<lparr>clipboard := Some text\<rparr>))
          else (False, showToast obj ''Failed to copy'' ''error'' d)
      | Inl error \<Rightarrow> (False, showToast obj ''Failed to copy'' ''error'' d))"

text \<open>
  \<^verbatim>\<open>copyUsingExecCommand(text)\<close>: the text area is created and appended, the
  \<^verbatim>\<open>try\<close> block runs, and the \<^verbatim>\<open>finally\<close> block removes the text area; an error
  thrown there would replace the returned value.
\<close>

definition copyUsingExecCommand ::
  "platform \<Rightarrow> arcCopy \<Rightarrow> string \<Rightarrow> dom \<Rightarrow> (js_error + bool) \<times> dom" where
  "copyUsingExecCommand p obj text d =
     (let textarea = Textarea (next_id d) text;
          d1 = appendChild_body textarea (d\<lparr>next_id := next_id d + 1\<rparr>);
          (successful, d2) = execCommand_try p obj text d1
      in case removeChild_body textarea d2 of
           Inl error \<Rightarrow> (Inl error, d2)
         | Inr d3 \<Rightarrow> (Inr successful, d3))"

text \<open>
  \<^verbatim>\<open>copy(text)\<close>: what its promise settles to, and the document. A rejected
  \<^verbatim>\<open>writeText\<close> and an error out of \<^verbatim>\<open>copyUsingExecCommand\<close> both reach the
  \<^verbatim>\<open>catch\<close>.
\<close>

definition copy :: "platform \<Rightarrow> arcCopy \<Rightarrow> string \<Rightarrow> dom \<Rightarrow> (js_error + bool) \<times> dom" where
  "copy p obj text d =
     (let attempt =
            (if has_clipboard p \<and> isSecureContext p
             then (if writeText_resolves p
                   then (Inr True,
                         showToast obj (''Copied: '' @ text) ''success'' (d\<lparr>clipboard := Some text\<rparr>))
                   else (Inl PlatformError, d))
             else copyUsingExecCommand p obj text d)
      in case fst attempt of
           Inr result \<Rightarrow> (Inr result, snd attempt)
         | Inl error \<Rightarrow> (Inr False, showToast obj ''Failed to copy'' ''error'' (snd attempt)))"

text \<open>
  \<^verbatim>\<open>copyArn(method, path, region = 'us-east-1')\<close>: \<open>arn_of\<close> is its constant \<^verbatim>\<open>arn\<close>;
  a region that is not passed is \<^const>\<open>None\<close>.
\<close>

definition arn_of :: "string \<Rightarrow> string \<Rightarrow> string option \<Rightarrow> string" where
  "arn_of method path region_arg =
     (let region = (case region_arg of None \<Rightarrow> ''us-east-1'' | Some r \<Rightarrow> r)
      in ''arn:arc:route:'' @ method @ '':'' @ path)"

definition copyArn ::
  "platform \<Rightarrow> arcCopy \<Rightarrow> string \<Rightarrow> string \<Rightarrow> string option \<Rightarrow> dom \<Rightarrow> (js_error + bool) \<times> dom" where
  "copyArn p obj method path region_arg d = copy p obj (arn_of method path region_arg) d"

text \<open>The children of the element that the toasts of a copier go to.\<close>

definition toast_children :: "arcCopy \<Rightarrow> dom \<Rightarrow> element list" where
  "toast_children obj d = (case toastContainer obj of None \<Rightarrow> body d | Some c \<Rightarrow> others d c)"

text \<open>Every element of the document is older than the next fresh one.\<close>

definition dom_ok :: "dom \<Rightarrow> bool" where
  "dom_ok d = list_all (\<lambda>e. elem_id e < next_id d) (body d)"

section \<open>The live watcher (arc-watcher.js)\<close>

text \<open>
  An \<^verbatim>\<open>ArcWatcher\<close> in the page's event loop. Its own fields are \<^verbatim>\<open>lastData\<close>,
  \<^verbatim>\<open>isWatching\<close> and \<^verbatim>\<open>pollTimeout\<close> (a timer number or \<^verbatim>\<open>null\<close>). The rest is what
  the event loop holds for it: the poll timers set by \<^verbatim>\<open>startPolling\<close> that have neither
  fired nor been cleared, the reconnect timers set by the \<^verbatim>\<open>close\<close> listener, the next
  timer number (\<^verbatim>\<open>setTimeout\<close> returns numbers from 1 on), the number of poll callbacks
  waiting for their \<^verbatim>\<open>fetch\<close>, the number of WebSockets whose listeners can still be
  called, and the arguments of the calls of \<^verbatim>\<open>handleArcChanged\<close> so far, in order. A
  snapshot has the type \<open>'d\<close>.
\<close>

record 'd arcWatcher =
  lastData :: "string option"
  isWatching :: bool
  pollTimeout :: "nat option"
  poll_timers :: "nat list"
  reconnect_timers :: "nat list"
  next_timer :: nat
  in_flight :: nat
  sockets :: nat
  handled :: "'d list"

text \<open>The constructor, in a page with no timer set.\<close>

definition new_ArcWatcher :: "'d arcWatcher" where
  "new_ArcWatcher =
     \<lparr>lastData = None, isWatching = False, pollTimeout = None, poll_timers = [],
      reconnect_timers = [], next_timer = 1, in_flight = 0, sockets = 0, handled = []\<rparr>"

text \<open>
  \<^verbatim>\<open>handleArcChanged(newData)\<close>: the listeners of \<^verbatim>\<open>arc-changed\<close> and the callback
  \<^verbatim>\<open>onArcChanged\<close> are called with the data; what they throw is caught.
\<close>

definition handleArcChanged :: "'d \<Rightarrow> 'd arcWatcher \<Rightarrow> 'd arcWatcher" where
  "handleArcChanged newData s = s\<lparr>handled := handled s @ [newData]\<rparr>"

text \<open>\<^verbatim>\<open>startPolling()\<close>: unless the watcher is stopped, a timer for the next poll is set.\<close>

definition startPolling :: "'d arcWatcher \<Rightarrow> 'd arcWatcher" where
  "startPolling s =
     (if \<not> isWatching s then s
      else s\<lparr>pollTimeout := Some (next_timer s),
             poll_timers := poll_timers s @ [next_timer s],
             next_timer := next_timer s + 1\<rparr>)"

text \<open>
  \<^verbatim>\<open>tryWebSocketConnection()\<close>: when \<^verbatim>\<open>new WebSocket\<close> throws, polling starts;
  otherwise there is one more socket with listeners.
\<close>

definition tryWebSocketConnection :: "bool \<Rightarrow> 'd arcWatcher \<Rightarrow> 'd arcWatcher" where
  "tryWebSocketConnection ws_throws s =
     (if ws_throws then startPolling s else s\<lparr>sockets := sockets s + 1\<rparr>)"

definition start :: "bool \<Rightarrow> 'd arcWatcher \<Rightarrow> 'd arcWatcher" where
  "start ws_throws s =
     (if isWatching s then s else tryWebSocketConnection ws_throws (s\<lparr>isWatching := True\<rparr>))"

text \<open>
  \<^verbatim>\<open>stop()\<close>. \<^verbatim>\<open>if (this.pollTimeout)\<close> is false for \<^verbatim>\<open>null\<close> and for 0;
  \<^verbatim>\<open>clearTimeout\<close> takes the timer with that number out of the event loop.
\<close>

definition stop :: "'d arcWatcher \<Rightarrow> 'd arcWatcher" where
  "stop s =
     (if \<not> isWatching s then s
      else
        (let s1 = s\<lparr>isWatching := False\<rparr>
         in case pollTimeout s1 of
              None \<Rightarrow> s1
            | Some t \<Rightarrow>
                if t = 0 then s1
                else s1\<lparr>poll_timers := removeAll t (poll_timers s1), pollTimeout := None\<rparr>))"

text \<open>
  What a poll's \<^verbatim>\<open>fetch\<close> and \<^verbatim>\<open>response.json()\<close> come to: the fetch rejects, the
  status is not ok, the body is not JSON, or a snapshot arrives.
\<close>

datatype 'd response = NetworkError | HttpError | BadJson | Snapshot 'd

text \<open>
  The callback of the poll timer, in its two parts. When the timer fires the callback
  starts and waits for its \<^verbatim>\<open>fetch\<close>. When the fetch settles the rest runs: a snapshot
  whose \<^verbatim>\<open>JSON.stringify\<close> (the parameter \<open>stringify\<close>) differs from \<^verbatim>\<open>lastData\<close> is
  recorded and handed to \<^verbatim>\<open>handleArcChanged\<close>, an error is logged, and in either case
  \<^verbatim>\<open>finally\<close> calls \<^verbatim>\<open>startPolling\<close>.
\<close>

definition poll_timer_fires :: "nat \<Rightarrow> 'd arcWatcher \<Rightarrow> 'd arcWatcher" where
  "poll_timer_fires t s =
     (if t \<in> set (poll_timers s)
      then s\<lparr>poll_timers := removeAll t (poll_timers s), in_flight := in_flight s + 1\<rparr>
      else s)"

definition fetch_settles :: "('d \<Rightarrow> string) \<Rightarrow> 'd response \<Rightarrow> 'd arcWatcher \<Rightarrow> 'd arcWatcher" where
  "fetch_settles stringify resp s =
     (if in_flight s = 0 then s
      else
        (let s1 = s\<lparr>in_flight := in_flight s - 1\<rparr>;
             s2 = (case resp of
                     Snapshot data \<Rightarrow>
                       (let hash = stringify data
                        in if lastData s1 \<noteq> Some hash
                           then handleArcChanged data (s1\<lparr>lastData := Some hash\<rparr>)
                           else s1)
                   | _ \<Rightarrow> s1)
         in startPolling s2))"

text \<open>
  The listeners of a WebSocket. A message is parsed; one of the type \<^verbatim>\<open>arc-changed\<close>
  hands its \<^verbatim>\<open>arcData\<close> to \<^verbatim>\<open>handleArcChanged\<close>. An error starts polling. A close, while
  the watcher is watching, sets a reconnect timer, whose callback calls
  \<^verbatim>\<open>tryWebSocketConnection\<close>.
\<close>

datatype 'd ws_message = Malformed | Message string 'd

definition ws_message :: "'d ws_message \<Rightarrow> 'd arcWatcher \<Rightarrow> 'd arcWatcher" where
  "ws_message msg s =
     (if sockets s = 0 then s
      else
        (case msg of
           Malformed \<Rightarrow> s
         | Message type arcData \<Rightarrow>
             if type = ''arc-changed'' then handleArcChanged arcData s else s))"

definition ws_error :: "'d arcWatcher \<Rightarrow> 'd arcWatcher" where
  "ws_error s = (if sockets s = 0 then s else startPolling s)"

definition ws_close :: "'d arcWatcher \<Rightarrow> 'd arcWatcher" where
  "ws_close s =
     (if sockets s = 0 then s
      else
        (let s1 = s\<lparr>sockets := sockets s - 1\<rparr>
         in if isWatching s1
            then s1\<lparr>reconnect_timers := reconnect_timers s1 @ [next_timer s1],
                    next_timer := next_timer s1 + 1\<rparr>
            else s1))"

definition reconnect_timer_fires :: "nat \<Rightarrow> bool \<Rightarrow> 'd arcWatcher \<Rightarrow> 'd arcWatcher" where
  "reconnect_timer_fires t ws_throws s =
     (if t \<in> set (reconnect_timers s)
      then tryWebSocketConnection ws_throws
             (s\<lparr>reconnect_timers := removeAll t (reconnect_timers s)\<rparr>)
      else s)"

text \<open>
  What can happen to a watcher without a call of its methods: the events the event loop
  delivers. An event that is not possible in a state (a timer that is not set, a fetch
  that nobody waits for, a socket that does not exist) leaves the state as it is.
\<close>

datatype 'd event =
  PollTimerFires nat
| FetchSettles "'d response"
| WsMessage "'d ws_message"
| WsError
| WsClose
| ReconnectTimerFires nat bool

fun deliver :: "('d \<Rightarrow> string) \<Rightarrow> 'd event \<Rightarrow> 'd arcWatcher \<Rightarrow> 'd arcWatcher" where
  "deliver stringify (PollTimerFires t) s = poll_timer_fires t s"
| "deliver stringify (FetchSettles resp) s = fetch_settles stringify resp s"
| "deliver stringify (WsMessage msg) s = ws_message msg s"
| "deliver stringify WsError s = ws_error s"
| "deliver stringify WsClose s = ws_close s"
| "deliver stringify (ReconnectTimerFires t ws_throws) s = reconnect_timer_fires t ws_throws s"

fun run :: "('d \<Rightarrow> string) \<Rightarrow> 'd event list \<Rightarrow> 'd arcWatcher \<Rightarrow> 'd arcWatcher" where
  "run stringify [] s = s"
| "run stringify (ev # evs) s = run stringify evs (deliver stringify ev s)"

text \<open>
  One round of the polling loop with a successful fetch: the pending poll timer fires and
  its fetch brings a snapshot. \<open>poll_all\<close> is the loop over a sequence of snapshots.
\<close>

definition poll_once :: "('d \<Rightarrow> string) \<Rightarrow> 'd \<Rightarrow> 'd arcWatcher \<Rightarrow> 'd arcWatcher" where
  "poll_once stringify data s =
     (case pollTimeout s of
        None \<Rightarrow> s
      | Some t \<Rightarrow> fetch_settles stringify (Snapshot data) (poll_timer_fires t s))"

fun poll_all :: "('d \<Rightarrow> string) \<Rightarrow> 'd list \<Rightarrow> 'd arcWatcher \<Rightarrow> 'd arcWatcher" where
  "poll_all stringify [] s = s"
| "poll_all stringify (data # rest) s = poll_all stringify rest (poll_once stringify data s)"

text \<open>
  A freshly started watcher on the polling path: \<^verbatim>\<open>start()\<close> in a page where
  \<^verbatim>\<open>new WebSocket\<close> throws.
\<close>

definition fresh_polling :: "'d arcWatcher" where
  "fresh_polling = start True new_ArcWatcher"

text \<open>
  The specification's reading of the polling path: of a sequence of snapshots, those whose
  serialised form differs from the last one observed before them; \<open>seen\<close> is the
  fingerprint observed so far, if any.
\<close>

fun changes :: "('d \<Rightarrow> string) \<Rightarrow> string option \<Rightarrow> 'd list \<Rightarrow> 'd list" where
  "changes stringify seen [] = []"
| "changes stringify seen (data # rest) =
     (if seen \<noteq> Some (stringify data)
      then data # changes stringify (Some (stringify data)) rest
      else changes stringify seen rest)"

text \<open>
  The other way onto the polling path: \<^verbatim>\<open>start()\<close> creates the WebSocket, and its
  \<^verbatim>\<open>error\<close> listener calls \<^verbatim>\<open>startPolling\<close>.
\<close>

definition fresh_polling_after_error :: "'d arcWatcher" where
  "fresh_polling_after_error = ws_error (start False new_ArcWatcher)"

text \<open>
  A watcher on the polling path: watching, and the timer that \<^verbatim>\<open>pollTimeout\<close> holds is
  pending. Sockets, reconnect timers, other poll timers and awaited fetches may be
  there as well.
\<close>

definition polling :: "'d arcWatcher \<Rightarrow> bool" where
  "polling s =
     (isWatching s \<and>
      (case pollTimeout s of None \<Rightarrow> False | Some t \<Rightarrow> t \<in> set (poll_timers s)))"

text \<open>
  A polling watcher between two polls: watching, its one poll timer pending, no fetch
  awaited, no socket and no reconnect timer; timer numbers are positive.
\<close>

definition waiting_for_poll :: "'d arcWatcher \<Rightarrow> bool" where
  "waiting_for_poll s =
     (isWatching s \<and> in_flight s = 0 \<and> sockets s = 0 \<and> reconnect_timers s = [] \<and>
      0 < next_timer s \<and>
      (case pollTimeout s of None \<Rightarrow> False | Some t \<Rightarrow> 0 < t \<and> poll_timers s = [t]))"

text \<open>A watcher that the event loop holds nothing for.\<close>

definition quiet :: "'d arcWatcher \<Rightarrow> bool" where
  "quiet s =
     (\<not> isWatching s \<and> poll_timers s = [] \<and> reconnect_timers s = [] \<and> in_flight s = 0 \<and>
      sockets s = 0)"

subsection \<open>Example inputs\<close>

definition example_manifest :: arcData where
  "example_manifest =
     \<lparr>routes = Some [\<lparr>route_method = ''GET'', route_path = ''/a'', route_functionName = ''get-a''\<rparr>,
                      \<lparr>route_method = ''POST'', route_path = ''/b'', route_functionName = ''post-b''\<rparr>],
      lambdas = Some [\<lparr>lambda_name = ''notifier''\<rparr>],
      tables = None\<rparr>"

definition toggles_on :: toggleStates where
  "toggles_on = \<lparr>toggle_routes = True, toggle_lambdas = True, toggle_tables = True\<rparr>"




text \<open>
  An insecure page whose \<^verbatim>\<open>execCommand\<close> throws, a copier with the default settings,
  and a document with one element.
\<close>

definition example_platform :: platform where
  "example_platform =
     \<lparr>has_clipboard = False, isSecureContext = False, writeText_resolves = False,
      execCommand_copy = Inl PlatformError\<rparr>"

definition example_copier :: arcCopy where
  "example_copier = \<lparr>toastDuration = 2000, toastContainer = None\<rparr>"

definition example_dom :: dom where
  "example_dom =
     \<lparr>body = [OtherElement 0], others = (\<lambda>c. []), next_id = 1, clipboard = None, timers = []\<rparr>"

text \<open>The page with the copy control of the route \<^verbatim>\<open>GET /a\<close>, as rendered.\<close>

definition example_page :: page where
  "example_page =
     \<lparr>button = \<lparr>textContent = glyph_clipboard, data_value = ''GET /a''\<rparr>,
      page_clipboard = None, pending = []\<rparr>"

chapter \<open>Properties\<close>

section \<open>Index strings: \<^verbatim>\<open>parseInt\<close> reads back what the template wrote\<close>

lemma digit_value_digit_char: "d < 10 \<Longrightarrow> digit_value (digit_char d) = Some d"
proof -
  assume "d < 10"
  then have "d \<in> {0, 1, 2, 3, 4, 5, 6, 7, 8, 9}" by auto
  then show ?thesis by (auto simp: digit_value_def digit_char_def)
qed

lemma digit_char_cases:
  "d < 10 \<Longrightarrow> digit_char d \<in> set ''0123456789''"
  unfolding digit_char_def by (rule nth_mem) simp

lemma toString_nat_decimal: "\<forall>c \<in> set (toString_nat n). is_decimal c"
proof (induction n rule: toString_nat.induct)
  case (1 n)
  show ?case
  proof (cases "n < 10")
    case True
    then show ?thesis
      using digit_char_cases [of n] by (subst toString_nat.simps) (simp add: is_decimal_def)
  next
    case False
    have "n mod 10 < 10" by simp
    then have "is_decimal (digit_char (n mod 10))"
      using digit_char_cases [of "n mod 10"] by (simp add: is_decimal_def)
    with False "1" show ?thesis by (subst toString_nat.simps) auto
  qed
qed

lemma toString_nat_nonempty: "toString_nat n \<noteq> []"
  by (subst toString_nat.simps) simp

lemma is_decimal_digit: "is_decimal c \<Longrightarrow> is_digit 10 c"
  by (auto simp: is_decimal_def is_digit_def digit_value_def)

lemma digits_value_snoc:
  "digits_value r (ds @ [c]) = digits_value r ds * r + the (digit_value c)"
  by (simp add: digits_value_def)

lemma digits_value_toString_nat: "digits_value 10 (toString_nat n) = n"
proof (induction n rule: toString_nat.induct)
  case (1 n)
  show ?case
  proof (cases "n < 10")
    case True
    then show ?thesis
      by (subst toString_nat.simps) (simp add: digits_value_def digit_value_digit_char)
  next
    case False
    with "1" have "digits_value 10 (toString_nat (n div 10)) = n div 10" by simp
    with False show ?thesis
      by (subst toString_nat.simps) (simp add: digits_value_snoc digit_value_digit_char)
  qed
qed

lemma ws_len_first:
  assumes "ws_len (c # cs) \<noteq> 0"
  shows "c \<in> set (map hd js_whitespace)"
proof -
  from assms obtain w where f: "find (\<lambda>w. prefix w (c # cs)) js_whitespace = Some w"
    and n: "w \<noteq> []"
    by (auto simp: ws_len_def split: option.splits)
  from f have "w \<in> set js_whitespace" and "prefix w (c # cs)"
    by (auto simp: find_Some_iff)
  with n have "hd w = c" by (cases w) auto
  with \<open>w \<in> set js_whitespace\<close> show ?thesis by force
qed

lemma not_decimal:
  "\<not> is_decimal CHR ''-''" "\<not> is_decimal CHR ''+''"
  "\<not> is_decimal CHR ''x''" "\<not> is_decimal CHR ''X''"
  by (simp_all add: is_decimal_def)

lemma ws_first_bytes:
  "set (map hd js_whitespace) =
     {CHR 0x09, CHR 0x0A, CHR 0x0B, CHR 0x0C, CHR 0x0D, CHR 0x20, CHR 0xC2, CHR 0xE1,
      CHR 0xE2, CHR 0xE3, CHR 0xEF}"
  unfolding js_whitespace_def by (simp add: insert_commute)

lemma decimal_not_ws_first: "is_decimal c \<Longrightarrow> c \<notin> set (map hd js_whitespace)"
  unfolding ws_first_bytes is_decimal_def by auto

lemma ws_len_decimal: "is_decimal c \<Longrightarrow> ws_len (c # cs) = 0"
  using ws_len_first [of c cs] decimal_not_ws_first [of c] by blast

lemma parseInt_decimal:
  assumes "s \<noteq> []" and "\<forall>c \<in> set s. is_decimal c"
  shows "parseInt s = Some (int (digits_value 10 s))"
proof -
  from assms obtain c cs where s: "s = c # cs" and c: "is_decimal c"
    by (cases s) auto
  have t: "trimStart s = s"
    using ws_len_decimal [OF c] by (subst trimStart.simps) (simp add: s)
  have sign: "\<not> prefix ''-'' s" "\<not> prefix ''+'' s"
    using c not_decimal by (auto simp: s)
  have "CHR ''x'' \<notin> set s" "CHR ''X'' \<notin> set s"
    using assms(2) not_decimal by blast+
  then have hex: "\<not> prefix ''0x'' s" "\<not> prefix ''0X'' s"
    by (auto simp: prefix_def)
  have tw: "takeWhile (is_digit 10) s = s"
    using assms(2) by (simp add: takeWhile_eq_all_conv is_decimal_digit)
  show ?thesis
    using assms(1) by (simp add: parseInt_def t sign hex tw)
qed

lemma parseInt_toString_nat: "parseInt (toString_nat n) = Some (int n)"
  by (simp add: parseInt_decimal toString_nat_nonempty toString_nat_decimal
      digits_value_toString_nat)

lemma split_on_no_sep: "sep \<notin> set s \<Longrightarrow> split_on sep s = [s]"
  by (induction s) auto

lemma split_on_append:
  "sep \<notin> set p \<Longrightarrow> split_on sep (p @ sep # s) = p # split_on sep s"
  by (induction p) auto

lemma toString_nat_no_dash: "CHR ''-'' \<notin> set (toString_nat n)"
  using toString_nat_decimal [of n] not_decimal(1) by blast

lemma id_index_encoded:
  assumes "CHR ''-'' \<notin> set p"
  shows "id_index (p @ CHR ''-'' # toString_nat n) = Some (int n)"
proof -
  have "split_on CHR ''-'' (p @ CHR ''-'' # toString_nat n) = [p, toString_nat n]"
    using assms by (simp only: split_on_append split_on_no_sep toString_nat_no_dash not_False_eq_True)
  then show ?thesis
    unfolding id_index_def by (simp only: list.case parseInt_toString_nat)
qed

lemma id_index_route: "id_index (''route-'' @ toString_nat n) = Some (int n)"
  using id_index_encoded [of "''route''" n] by (simp only: append.simps set_simps insert_iff empty_iff char.inject simp_thms)


section \<open>The tree renderer: \<^verbatim>\<open>buildTree\<close>\<close>

lemma map_indexed_length: "length (map_indexed f xs) = length xs"
  by (simp add: map_indexed_def)

lemma map_indexed_nth: "i < length xs \<Longrightarrow> map_indexed f xs ! i = f i (xs ! i)"
  by (simp add: map_indexed_def nth_enumerate_eq)

lemma buildTree_cases:
  "g \<in> set (buildTree M T) \<longleftrightarrow>
     (\<exists>rs. routes M = Some rs \<and> toggle_routes T \<and> rs \<noteq> [] \<and>
        g = group_node ''routes-group'' ''Routes'' (map_indexed route_node rs)) \<or>
     (\<exists>ls. lambdas M = Some ls \<and> toggle_lambdas T \<and> ls \<noteq> [] \<and>
        g = group_node ''lambdas-group'' ''Lambdas'' (map_indexed lambda_node ls)) \<or>
     (\<exists>ts. tables M = Some ts \<and> toggle_tables T \<and> ts \<noteq> [] \<and>
        g = group_node ''tables-group'' ''Tables'' (map_indexed table_node ts))"
  by (cases "routes M"; cases "lambdas M"; cases "tables M") (auto simp: buildTree_def)

lemma group_node_sel:
  "node_id (group_node i n cs) = i" "node_children (group_node i n cs) = Some cs"
  by (simp_all add: group_node_def)

lemma buildTree_routes_group:
  "(\<exists>g \<in> set (buildTree M T). node_id g = ''routes-group'') \<longleftrightarrow>
     toggle_routes T \<and> (\<exists>rs. routes M = Some rs \<and> rs \<noteq> [])"
proof
  assume "\<exists>g \<in> set (buildTree M T). node_id g = ''routes-group''"
  then show "toggle_routes T \<and> (\<exists>rs. routes M = Some rs \<and> rs \<noteq> [])"
    by (auto simp: buildTree_cases group_node_sel)
next
  assume "toggle_routes T \<and> (\<exists>rs. routes M = Some rs \<and> rs \<noteq> [])"
  then obtain rs where "toggle_routes T" "routes M = Some rs" "rs \<noteq> []" by blast
  then have "group_node ''routes-group'' ''Routes'' (map_indexed route_node rs) \<in> set (buildTree M T)"
    by (simp add: buildTree_cases)
  then show "\<exists>g \<in> set (buildTree M T). node_id g = ''routes-group''"
    by (rule rev_bexI) (simp add: group_node_sel)
qed

lemma buildTree_lambdas_group:
  "(\<exists>g \<in> set (buildTree M T). node_id g = ''lambdas-group'') \<longleftrightarrow>
     toggle_lambdas T \<and> (\<exists>ls. lambdas M = Some ls \<and> ls \<noteq> [])"
proof
  assume "\<exists>g \<in> set (buildTree M T). node_id g = ''lambdas-group''"
  then show "toggle_lambdas T \<and> (\<exists>ls. lambdas M = Some ls \<and> ls \<noteq> [])"
    by (auto simp: buildTree_cases group_node_sel)
next
  assume "toggle_lambdas T \<and> (\<exists>ls. lambdas M = Some ls \<and> ls \<noteq> [])"
  then obtain ls where "toggle_lambdas T" "lambdas M = Some ls" "ls \<noteq> []" by blast
  then have "group_node ''lambdas-group'' ''Lambdas'' (map_indexed lambda_node ls) \<in> set (buildTree M T)"
    by (simp add: buildTree_cases)
  then show "\<exists>g \<in> set (buildTree M T). node_id g = ''lambdas-group''"
    by (rule rev_bexI) (simp add: group_node_sel)
qed

lemma buildTree_tables_group:
  "(\<exists>g \<in> set (buildTree M T). node_id g = ''tables-group'') \<longleftrightarrow>
     toggle_tables T \<and> (\<exists>ts. tables M = Some ts \<and> ts \<noteq> [])"
proof
  assume "\<exists>g \<in> set (buildTree M T). node_id g = ''tables-group''"
  then show "toggle_tables T \<and> (\<exists>ts. tables M = Some ts \<and> ts \<noteq> [])"
    by (auto simp: buildTree_cases group_node_sel)
next
  assume "toggle_tables T \<and> (\<exists>ts. tables M = Some ts \<and> ts \<noteq> [])"
  then obtain ts where "toggle_tables T" "tables M = Some ts" "ts \<noteq> []" by blast
  then have "group_node ''tables-group'' ''Tables'' (map_indexed table_node ts) \<in> set (buildTree M T)"
    by (simp add: buildTree_cases)
  then show "\<exists>g \<in> set (buildTree M T). node_id g = ''tables-group''"
    by (rule rev_bexI) (simp add: group_node_sel)
qed

lemma buildTree_length: "length (buildTree M T) \<le> 3"
  by (cases "routes M"; cases "lambdas M"; cases "tables M") (simp_all add: buildTree_def)

lemma buildTree_distinct: "distinct (map node_id (buildTree M T))"
  by (cases "routes M"; cases "lambdas M"; cases "tables M")
    (auto simp: buildTree_def group_node_sel)

lemma buildTree_ids:
  "set (map node_id (buildTree M T)) \<subseteq> {''routes-group'', ''lambdas-group'', ''tables-group''}"
  by (auto simp: buildTree_cases group_node_sel)

lemma buildTree_routes_children:
  assumes "g \<in> set (buildTree M T)" and "node_id g = ''routes-group''"
  shows "\<exists>rs cs. routes M = Some rs \<and> node_children g = Some cs \<and> length cs = length rs \<and>
           (\<forall>i<length rs. cs ! i = route_node i (rs ! i))"
proof -
  from assms obtain rs where r: "routes M = Some rs"
    and g: "g = group_node ''routes-group'' ''Routes'' (map_indexed route_node rs)"
    by (auto simp: buildTree_cases group_node_sel)
  show ?thesis
    by (rule exI [of _ rs], rule exI [of _ "map_indexed route_node rs"])
      (simp add: r g group_node_sel map_indexed_length map_indexed_nth)
qed

lemma buildTree_lambdas_children:
  assumes "g \<in> set (buildTree M T)" and "node_id g = ''lambdas-group''"
  shows "\<exists>ls cs. lambdas M = Some ls \<and> node_children g = Some cs \<and> length cs = length ls \<and>
           (\<forall>i<length ls. cs ! i = lambda_node i (ls ! i))"
proof -
  from assms obtain ls where r: "lambdas M = Some ls"
    and g: "g = group_node ''lambdas-group'' ''Lambdas'' (map_indexed lambda_node ls)"
    by (auto simp: buildTree_cases group_node_sel)
  show ?thesis
    by (rule exI [of _ ls], rule exI [of _ "map_indexed lambda_node ls"])
      (simp add: r g group_node_sel map_indexed_length map_indexed_nth)
qed

lemma buildTree_tables_children:
  assumes "g \<in> set (buildTree M T)" and "node_id g = ''tables-group''"
  shows "\<exists>ts cs. tables M = Some ts \<and> node_children g = Some cs \<and> length cs = length ts \<and>
           (\<forall>i<length ts. cs ! i = table_node i (ts ! i))"
proof -
  from assms obtain ts where r: "tables M = Some ts"
    and g: "g = group_node ''tables-group'' ''Tables'' (map_indexed table_node ts)"
    by (auto simp: buildTree_cases group_node_sel)
  show ?thesis
    by (rule exI [of _ ts], rule exI [of _ "map_indexed table_node ts"])
      (simp add: r g group_node_sel map_indexed_length map_indexed_nth)
qed


lemma route_node_sel:
  "node_id (route_node i r) = ''route-'' @ toString_nat i"
  "node_name (route_node i r) = route_method r @ '' '' @ route_path r"
  "node_type (route_node i r) = Some ''route''"
  by (simp_all add: route_node_def)

lemma lambda_node_sel:
  "node_id (lambda_node i l) = ''lambda-'' @ toString_nat i"
  "node_name (lambda_node i l) = lambda_name l"
  "node_type (lambda_node i l) = Some ''lambda''"
  by (simp_all add: lambda_node_def)

lemma table_node_sel:
  "node_id (table_node i t) = ''table-'' @ toString_nat i"
  "node_name (table_node i t) = table_name t"
  "node_type (table_node i t) = Some ''table''"
  by (simp_all add: table_node_def)

text \<open>
  Claim C4. For every Manifest Model \<open>M\<close> and Toggle State \<open>T\<close>, \<open>buildTree M T\<close> has
  the group node of a category exactly when the category's toggle is true and its list
  in \<open>M\<close> is present and non-empty. Every node of the result is one of the three groups,
  no group occurs twice, and there are at most 3. The children of an included group are
  as many as the list has elements, in the order of the list: the \<open>i\<close>-th child has the
  id \<^verbatim>\<open>{type}-{i}\<close>, the type of the category and the name of the \<open>i\<close>-th element.
\<close>

theorem buildTree_groups:
  "((\<exists>g \<in> set (buildTree M T). node_id g = ''routes-group'') \<longleftrightarrow>
      toggle_routes T \<and> (\<exists>rs. routes M = Some rs \<and> rs \<noteq> []))
   \<and> ((\<exists>g \<in> set (buildTree M T). node_id g = ''lambdas-group'') \<longleftrightarrow>
      toggle_lambdas T \<and> (\<exists>ls. lambdas M = Some ls \<and> ls \<noteq> []))
   \<and> ((\<exists>g \<in> set (buildTree M T). node_id g = ''tables-group'') \<longleftrightarrow>
      toggle_tables T \<and> (\<exists>ts. tables M = Some ts \<and> ts \<noteq> []))
   \<and> set (map node_id (buildTree M T)) \<subseteq> {''routes-group'', ''lambdas-group'', ''tables-group''}
   \<and> distinct (map node_id (buildTree M T))
   \<and> length (buildTree M T) \<le> 3
   \<and> (\<forall>g \<in> set (buildTree M T). node_id g = ''routes-group'' \<longrightarrow>
        (\<exists>rs cs. routes M = Some rs \<and> node_children g = Some cs \<and> length cs = length rs \<and>
           (\<forall>i<length rs. node_id (cs ! i) = ''route-'' @ toString_nat i \<and>
              node_name (cs ! i) = route_method (rs ! i) @ '' '' @ route_path (rs ! i) \<and>
              node_type (cs ! i) = Some ''route'')))
   \<and> (\<forall>g \<in> set (buildTree M T). node_id g = ''lambdas-group'' \<longrightarrow>
        (\<exists>ls cs. lambdas M = Some ls \<and> node_children g = Some cs \<and> length cs = length ls \<and>
           (\<forall>i<length ls. node_id (cs ! i) = ''lambda-'' @ toString_nat i \<and>
              node_name (cs ! i) = lambda_name (ls ! i) \<and>
              node_type (cs ! i) = Some ''lambda'')))
   \<and> (\<forall>g \<in> set (buildTree M T). node_id g = ''tables-group'' \<longrightarrow>
        (\<exists>ts cs. tables M = Some ts \<and> node_children g = Some cs \<and> length cs = length ts \<and>
           (\<forall>i<length ts. node_id (cs ! i) = ''table-'' @ toString_nat i \<and>
              node_name (cs ! i) = table_name (ts ! i) \<and>
              node_type (cs ! i) = Some ''table'')))"
proof -
  have r: "\<forall>g \<in> set (buildTree M T). node_id g = ''routes-group'' \<longrightarrow>
        (\<exists>rs cs. routes M = Some rs \<and> node_children g = Some cs \<and> length cs = length rs \<and>
           (\<forall>i<length rs. node_id (cs ! i) = ''route-'' @ toString_nat i \<and>
              node_name (cs ! i) = route_method (rs ! i) @ '' '' @ route_path (rs ! i) \<and>
              node_type (cs ! i) = Some ''route''))"
  proof (intro ballI impI)
    fix g assume "g \<in> set (buildTree M T)" and "node_id g = ''routes-group''"
    then obtain rs cs where "routes M = Some rs" "node_children g = Some cs"
      "length cs = length rs" "\<forall>i<length rs. cs ! i = route_node i (rs ! i)"
      using buildTree_routes_children by blast
    then show "\<exists>rs cs. routes M = Some rs \<and> node_children g = Some cs \<and> length cs = length rs \<and>
           (\<forall>i<length rs. node_id (cs ! i) = ''route-'' @ toString_nat i \<and>
              node_name (cs ! i) = route_method (rs ! i) @ '' '' @ route_path (rs ! i) \<and>
              node_type (cs ! i) = Some ''route'')"
      by (simp add: route_node_sel)
  qed
  have l: "\<forall>g \<in> set (buildTree M T). node_id g = ''lambdas-group'' \<longrightarrow>
        (\<exists>ls cs. lambdas M = Some ls \<and> node_children g = Some cs \<and> length cs = length ls \<and>
           (\<forall>i<length ls. node_id (cs ! i) = ''lambda-'' @ toString_nat i \<and>
              node_name (cs ! i) = lambda_name (ls ! i) \<and>
              node_type (cs ! i) = Some ''lambda''))"
  proof (intro ballI impI)
    fix g assume "g \<in> set (buildTree M T)" and "node_id g = ''lambdas-group''"
    then obtain ls cs where "lambdas M = Some ls" "node_children g = Some cs"
      "length cs = length ls" "\<forall>i<length ls. cs ! i = lambda_node i (ls ! i)"
      using buildTree_lambdas_children by blast
    then show "\<exists>ls cs. lambdas M = Some ls \<and> node_children g = Some cs \<and> length cs = length ls \<and>
           (\<forall>i<length ls. node_id (cs ! i) = ''lambda-'' @ toString_nat i \<and>
              node_name (cs ! i) = lambda_name (ls ! i) \<and>
              node_type (cs ! i) = Some ''lambda'')"
      by (simp add: lambda_node_sel)
  qed
  have t: "\<forall>g \<in> set (buildTree M T). node_id g = ''tables-group'' \<longrightarrow>
        (\<exists>ts cs. tables M = Some ts \<and> node_children g = Some cs \<and> length cs = length ts \<and>
           (\<forall>i<length ts. node_id (cs ! i) = ''table-'' @ toString_nat i \<and>
              node_name (cs ! i) = table_name (ts ! i) \<and>
              node_type (cs ! i) = Some ''table''))"
  proof (intro ballI impI)
    fix g assume "g \<in> set (buildTree M T)" and "node_id g = ''tables-group''"
    then obtain ts cs where "tables M = Some ts" "node_children g = Some cs"
      "length cs = length ts" "\<forall>i<length ts. cs ! i = table_node i (ts ! i)"
      using buildTree_tables_children by blast
    then show "\<exists>ts cs. tables M = Some ts \<and> node_children g = Some cs \<and> length cs = length ts \<and>
           (\<forall>i<length ts. node_id (cs ! i) = ''table-'' @ toString_nat i \<and>
              node_name (cs ! i) = table_name (ts ! i) \<and>
              node_type (cs ! i) = Some ''table'')"
      by (simp add: table_node_sel)
  qed
  from buildTree_routes_group buildTree_lambdas_group buildTree_tables_group buildTree_ids
    buildTree_distinct buildTree_length r l t
  show ?thesis by (intro conjI)
qed


lemma toString_nat_Suc_0: "toString_nat (Suc 0) = ''1''"
  by (simp add: toString_nat.simps digit_char_def)

text \<open>
  The theorem at the example manifest (two routes, one lambda, no table list) with every
  toggle on: the routes group is there with two children, the second with id
  \<^verbatim>\<open>route-1\<close>, and there is no tables group.
\<close>

theorem buildTree_groups_witness:
  "(\<exists>g \<in> set (buildTree example_manifest toggles_on). node_id g = ''routes-group'' \<and>
      (\<exists>cs. node_children g = Some cs \<and> length cs = 2 \<and> node_id (cs ! 1) = ''route-1'' \<and>
         node_name (cs ! 1) = ''POST /b''))
   \<and> \<not> (\<exists>g \<in> set (buildTree example_manifest toggles_on). node_id g = ''tables-group'')
   \<and> length (buildTree example_manifest toggles_on) \<le> 3"
proof -
  note t = buildTree_groups [of example_manifest toggles_on]
  from t have t_routes: "(\<exists>g \<in> set (buildTree example_manifest toggles_on). node_id g = ''routes-group'') \<longleftrightarrow>
      toggle_routes toggles_on \<and> (\<exists>rs. routes example_manifest = Some rs \<and> rs \<noteq> [])"
    by (elim conjE)
  from t have t_tables: "(\<exists>g \<in> set (buildTree example_manifest toggles_on). node_id g = ''tables-group'') \<longleftrightarrow>
      toggle_tables toggles_on \<and> (\<exists>ts. tables example_manifest = Some ts \<and> ts \<noteq> [])"
    by (elim conjE)
  from t have t_len: "length (buildTree example_manifest toggles_on) \<le> 3"
    by (elim conjE)
  from t have t_children: "\<forall>g \<in> set (buildTree example_manifest toggles_on). node_id g = ''routes-group'' \<longrightarrow>
        (\<exists>rs cs. routes example_manifest = Some rs \<and> node_children g = Some cs \<and> length cs = length rs \<and>
           (\<forall>i<length rs. node_id (cs ! i) = ''route-'' @ toString_nat i \<and>
              node_name (cs ! i) = route_method (rs ! i) @ '' '' @ route_path (rs ! i) \<and>
              node_type (cs ! i) = Some ''route''))"
    by (elim conjE)
  have "toggle_routes toggles_on \<and> (\<exists>rs. routes example_manifest = Some rs \<and> rs \<noteq> [])"
    by (simp add: toggles_on_def example_manifest_def)
  with t_routes obtain g where g: "g \<in> set (buildTree example_manifest toggles_on)"
    "node_id g = ''routes-group''" by blast
  with t_children obtain rs cs where rs: "routes example_manifest = Some rs"
    and cs: "node_children g = Some cs" "length cs = length rs"
    and ch: "\<forall>i<length rs. node_id (cs ! i) = ''route-'' @ toString_nat i \<and>
              node_name (cs ! i) = route_method (rs ! i) @ '' '' @ route_path (rs ! i) \<and>
              node_type (cs ! i) = Some ''route''"
    by blast
  from rs have rs_eq: "rs = [\<lparr>route_method = ''GET'', route_path = ''/a'', route_functionName = ''get-a''\<rparr>,
                      \<lparr>route_method = ''POST'', route_path = ''/b'', route_functionName = ''post-b''\<rparr>]"
    by (simp add: example_manifest_def)
  then have "Suc 0 < length rs" by simp
  with ch have "node_id (cs ! Suc 0) = ''route-'' @ toString_nat (Suc 0)"
    "node_name (cs ! Suc 0) = route_method (rs ! Suc 0) @ '' '' @ route_path (rs ! Suc 0)" by blast+
  then have c1: "node_id (cs ! 1) = ''route-1''" "node_name (cs ! 1) = ''POST /b''"
    by (simp_all add: toString_nat_Suc_0 rs_eq)
  from cs rs_eq have "length cs = 2" by simp
  with g cs c1 have first: "\<exists>g \<in> set (buildTree example_manifest toggles_on). node_id g = ''routes-group'' \<and>
      (\<exists>cs. node_children g = Some cs \<and> length cs = 2 \<and> node_id (cs ! 1) = ''route-1'' \<and>
         node_name (cs ! 1) = ''POST /b'')" by blast
  have "\<not> (toggle_tables toggles_on \<and> (\<exists>ts. tables example_manifest = Some ts \<and> ts \<noteq> []))"
    by (simp add: example_manifest_def)
  with t_tables have second: "\<not> (\<exists>g \<in> set (buildTree example_manifest toggles_on). node_id g = ''tables-group'')"
    by blast
  from first second t_len show ?thesis by (intro conjI)
qed

section \<open>The tree renderer: \<^verbatim>\<open>getNode\<close>\<close>

lemma js_index_inside: "i < length xs \<Longrightarrow> js_index xs (Some (int i)) = Some (xs ! i)"
  by (simp add: js_index_def)

lemma js_index_outside: "length xs \<le> i \<Longrightarrow> js_index xs (Some (int i)) = None"
  by (simp add: js_index_def)

lemma id_index_lambda: "id_index (''lambda-'' @ toString_nat n) = Some (int n)"
  using id_index_encoded [of "''lambda''" n] by simp

lemma id_index_table: "id_index (''table-'' @ toString_nat n) = Some (int n)"
  using id_index_encoded [of "''table''" n] by simp

lemma getNode_route_id:
  "getNode M (''route-'' @ toString_nat i) =
     Some \<lparr>ref_type = ''route'',
           ref_data = map_option RouteData (js_index (or_empty (routes M)) (Some (int i)))\<rparr>"
  unfolding getNode_def Let_def id_index_route by simp

lemma getNode_lambda_id:
  "getNode M (''lambda-'' @ toString_nat i) =
     Some \<lparr>ref_type = ''lambda'',
           ref_data = map_option LambdaData (js_index (or_empty (lambdas M)) (Some (int i)))\<rparr>"
  unfolding getNode_def Let_def id_index_lambda by simp

lemma getNode_table_id:
  "getNode M (''table-'' @ toString_nat i) =
     Some \<lparr>ref_type = ''table'',
           ref_data = map_option TableData (js_index (or_empty (tables M)) (Some (int i)))\<rparr>"
  unfolding getNode_def Let_def id_index_table by simp

lemma getNode_None:
  "getNode M nid = None \<longleftrightarrow>
     \<not> prefix ''route-'' nid \<and> \<not> prefix ''lambda-'' nid \<and> \<not> prefix ''table-'' nid"
  by (simp add: getNode_def Let_def)

lemma getNode_routes_child:
  assumes "g \<in> set (buildTree M T)" and "node_id g = ''routes-group''"
    and "node_children g = Some cs" and "i < length cs"
  shows "\<exists>rs. routes M = Some rs \<and> i < length rs \<and>
           getNode M (node_id (cs ! i)) =
             Some \<lparr>ref_type = ''route'', ref_data = Some (RouteData (rs ! i))\<rparr>"
proof -
  from buildTree_routes_children [OF assms(1,2)] assms(3) obtain rs
    where rs: "routes M = Some rs" and len: "length cs = length rs"
      and ch: "\<forall>i<length rs. cs ! i = route_node i (rs ! i)"
    by auto
  from len assms(4) have i: "i < length rs" by simp
  with ch have "node_id (cs ! i) = ''route-'' @ toString_nat i"
    by (simp add: route_node_sel)
  then have "getNode M (node_id (cs ! i)) =
      Some \<lparr>ref_type = ''route'', ref_data = Some (RouteData (rs ! i))\<rparr>"
    using i by (simp only: getNode_route_id rs or_empty_def option.case js_index_inside option.map)
  with rs i show ?thesis by blast
qed

lemma getNode_lambdas_child:
  assumes "g \<in> set (buildTree M T)" and "node_id g = ''lambdas-group''"
    and "node_children g = Some cs" and "i < length cs"
  shows "\<exists>ls. lambdas M = Some ls \<and> i < length ls \<and>
           getNode M (node_id (cs ! i)) =
             Some \<lparr>ref_type = ''lambda'', ref_data = Some (LambdaData (ls ! i))\<rparr>"
proof -
  from buildTree_lambdas_children [OF assms(1,2)] assms(3) obtain ls
    where ls: "lambdas M = Some ls" and len: "length cs = length ls"
      and ch: "\<forall>i<length ls. cs ! i = lambda_node i (ls ! i)"
    by auto
  from len assms(4) have i: "i < length ls" by simp
  with ch have "node_id (cs ! i) = ''lambda-'' @ toString_nat i"
    by (simp add: lambda_node_sel)
  then have "getNode M (node_id (cs ! i)) =
      Some \<lparr>ref_type = ''lambda'', ref_data = Some (LambdaData (ls ! i))\<rparr>"
    using i by (simp only: getNode_lambda_id ls or_empty_def option.case js_index_inside option.map)
  with ls i show ?thesis by blast
qed

lemma getNode_tables_child:
  assumes "g \<in> set (buildTree M T)" and "node_id g = ''tables-group''"
    and "node_children g = Some cs" and "i < length cs"
  shows "\<exists>ts. tables M = Some ts \<and> i < length ts \<and>
           getNode M (node_id (cs ! i)) =
             Some \<lparr>ref_type = ''table'', ref_data = Some (TableData (ts ! i))\<rparr>"
proof -
  from buildTree_tables_children [OF assms(1,2)] assms(3) obtain ts
    where ts: "tables M = Some ts" and len: "length cs = length ts"
      and ch: "\<forall>i<length ts. cs ! i = table_node i (ts ! i)"
    by auto
  from len assms(4) have i: "i < length ts" by simp
  with ch have "node_id (cs ! i) = ''table-'' @ toString_nat i"
    by (simp add: table_node_sel)
  then have "getNode M (node_id (cs ! i)) =
      Some \<lparr>ref_type = ''table'', ref_data = Some (TableData (ts ! i))\<rparr>"
    using i by (simp only: getNode_table_id ts or_empty_def option.case js_index_inside option.map)
  with ts i show ?thesis by blast
qed


lemma getNode_type:
  "prefix ''route-'' nid \<Longrightarrow> map_option ref_type (getNode M nid) = Some ''route''"
  "prefix ''lambda-'' nid \<Longrightarrow> map_option ref_type (getNode M nid) = Some ''lambda''"
  "prefix ''table-'' nid \<Longrightarrow> map_option ref_type (getNode M nid) = Some ''table''"
  by (auto simp: getNode_def Let_def prefix_def)

text \<open>
  Claim C1, as the code has it. For every id that \<open>buildTree\<close> gives a child node (for
  any Toggle State), \<open>getNode\<close> on the same Manifest Model returns the type of the group
  and the element at the child's position in the group's list. \<open>getNode\<close> returns
  \<^verbatim>\<open>null\<close> exactly for the ids that start with none of \<^verbatim>\<open>route-\<close>,
  \<^verbatim>\<open>lambda-\<close>, \<^verbatim>\<open>table-\<close>; for an id with one of the prefixes it returns an object
  of that type. For an id \<^verbatim>\<open>{type}-{i}\<close> whose index is past the end of its list (the
  empty list when the list is missing) the \<^verbatim>\<open>data\<close> of the object is
  \<^verbatim>\<open>undefined\<close>. It has no error result.
\<close>

theorem getNode_resolves:
  "(\<forall>T g cs i. g \<in> set (buildTree M T) \<and> node_id g = ''routes-group'' \<and>
        node_children g = Some cs \<and> i < length cs \<longrightarrow>
      (\<exists>rs. routes M = Some rs \<and> i < length rs \<and>
         getNode M (node_id (cs ! i)) =
           Some \<lparr>ref_type = ''route'', ref_data = Some (RouteData (rs ! i))\<rparr>))
   \<and> (\<forall>T g cs i. g \<in> set (buildTree M T) \<and> node_id g = ''lambdas-group'' \<and>
        node_children g = Some cs \<and> i < length cs \<longrightarrow>
      (\<exists>ls. lambdas M = Some ls \<and> i < length ls \<and>
         getNode M (node_id (cs ! i)) =
           Some \<lparr>ref_type = ''lambda'', ref_data = Some (LambdaData (ls ! i))\<rparr>))
   \<and> (\<forall>T g cs i. g \<in> set (buildTree M T) \<and> node_id g = ''tables-group'' \<and>
        node_children g = Some cs \<and> i < length cs \<longrightarrow>
      (\<exists>ts. tables M = Some ts \<and> i < length ts \<and>
         getNode M (node_id (cs ! i)) =
           Some \<lparr>ref_type = ''table'', ref_data = Some (TableData (ts ! i))\<rparr>))
   \<and> (\<forall>nid. getNode M nid = None \<longleftrightarrow>
        \<not> prefix ''route-'' nid \<and> \<not> prefix ''lambda-'' nid \<and> \<not> prefix ''table-'' nid)
   \<and> (\<forall>nid. prefix ''route-'' nid \<longrightarrow> map_option ref_type (getNode M nid) = Some ''route'')
   \<and> (\<forall>nid. prefix ''lambda-'' nid \<longrightarrow> map_option ref_type (getNode M nid) = Some ''lambda'')
   \<and> (\<forall>nid. prefix ''table-'' nid \<longrightarrow> map_option ref_type (getNode M nid) = Some ''table'')
   \<and> (\<forall>i. length (or_empty (routes M)) \<le> i \<longrightarrow>
        getNode M (''route-'' @ toString_nat i) = Some \<lparr>ref_type = ''route'', ref_data = None\<rparr>)
   \<and> (\<forall>i. length (or_empty (lambdas M)) \<le> i \<longrightarrow>
        getNode M (''lambda-'' @ toString_nat i) = Some \<lparr>ref_type = ''lambda'', ref_data = None\<rparr>)
   \<and> (\<forall>i. length (or_empty (tables M)) \<le> i \<longrightarrow>
        getNode M (''table-'' @ toString_nat i) = Some \<lparr>ref_type = ''table'', ref_data = None\<rparr>)"
proof (intro conjI allI impI)
  fix T g cs i
  assume "g \<in> set (buildTree M T) \<and> node_id g = ''routes-group'' \<and>
        node_children g = Some cs \<and> i < length cs"
  then show "\<exists>rs. routes M = Some rs \<and> i < length rs \<and>
         getNode M (node_id (cs ! i)) =
           Some \<lparr>ref_type = ''route'', ref_data = Some (RouteData (rs ! i))\<rparr>"
    using getNode_routes_child [of g M T cs i] by blast
next
  fix T g cs i
  assume "g \<in> set (buildTree M T) \<and> node_id g = ''lambdas-group'' \<and>
        node_children g = Some cs \<and> i < length cs"
  then show "\<exists>ls. lambdas M = Some ls \<and> i < length ls \<and>
         getNode M (node_id (cs ! i)) =
           Some \<lparr>ref_type = ''lambda'', ref_data = Some (LambdaData (ls ! i))\<rparr>"
    using getNode_lambdas_child [of g M T cs i] by blast
next
  fix T g cs i
  assume "g \<in> set (buildTree M T) \<and> node_id g = ''tables-group'' \<and>
        node_children g = Some cs \<and> i < length cs"
  then show "\<exists>ts. tables M = Some ts \<and> i < length ts \<and>
         getNode M (node_id (cs ! i)) =
           Some \<lparr>ref_type = ''table'', ref_data = Some (TableData (ts ! i))\<rparr>"
    using getNode_tables_child [of g M T cs i] by blast
next
  fix nid
  show "getNode M nid = None \<longleftrightarrow>
        \<not> prefix ''route-'' nid \<and> \<not> prefix ''lambda-'' nid \<and> \<not> prefix ''table-'' nid"
    by (rule getNode_None)
next
  fix nid assume "prefix ''route-'' nid"
  then show "map_option ref_type (getNode M nid) = Some ''route''" by (rule getNode_type)
next
  fix nid assume "prefix ''lambda-'' nid"
  then show "map_option ref_type (getNode M nid) = Some ''lambda''" by (rule getNode_type)
next
  fix nid assume "prefix ''table-'' nid"
  then show "map_option ref_type (getNode M nid) = Some ''table''" by (rule getNode_type)
next
  fix i assume "length (or_empty (routes M)) \<le> i"
  then show "getNode M (''route-'' @ toString_nat i) = Some \<lparr>ref_type = ''route'', ref_data = None\<rparr>"
    by (simp only: getNode_route_id js_index_outside option.map)
next
  fix i assume "length (or_empty (lambdas M)) \<le> i"
  then show "getNode M (''lambda-'' @ toString_nat i) = Some \<lparr>ref_type = ''lambda'', ref_data = None\<rparr>"
    by (simp only: getNode_lambda_id js_index_outside option.map)
next
  fix i assume "length (or_empty (tables M)) \<le> i"
  then show "getNode M (''table-'' @ toString_nat i) = Some \<lparr>ref_type = ''table'', ref_data = None\<rparr>"
    by (simp only: getNode_table_id js_index_outside option.map)
qed

text \<open>
  The claim as stated asks for \<^verbatim>\<open>null\<close> when the index is out of range or the id does
  not match the pattern. The example manifest has two routes: for \<^verbatim>\<open>route-5\<close> and for
  \<^verbatim>\<open>route-abc\<close> the result is the object \<^verbatim>\<open>{ type: 'route', data: undefined }\<close>.
\<close>

theorem getNode_null_counterexample:
  "getNode example_manifest ''route-5'' = Some \<lparr>ref_type = ''route'', ref_data = None\<rparr>
   \<and> getNode example_manifest ''route-abc'' = Some \<lparr>ref_type = ''route'', ref_data = None\<rparr>"
  by code_simp


lemma toString_nat_0: "toString_nat 0 = ''0''"
  by (simp add: toString_nat.simps digit_char_def)

text \<open>
  The theorem at the example manifest: the id \<^verbatim>\<open>route-1\<close> of the second child of the
  routes group, an id with no category prefix, and an index past the (missing) table list.
\<close>

theorem getNode_resolves_witness:
  "getNode example_manifest ''route-1'' =
     Some \<lparr>ref_type = ''route'',
           ref_data = Some (RouteData \<lparr>route_method = ''POST'', route_path = ''/b'',
                                       route_functionName = ''post-b''\<rparr>)\<rparr>
   \<and> getNode example_manifest ''routes-group'' = None
   \<and> getNode example_manifest ''table-0'' = Some \<lparr>ref_type = ''table'', ref_data = None\<rparr>"
proof -
  note t = getNode_resolves [of example_manifest]
  define rs where "rs = [\<lparr>route_method = ''GET'', route_path = ''/a'', route_functionName = ''get-a''\<rparr>,
                      \<lparr>route_method = ''POST'', route_path = ''/b'', route_functionName = ''post-b''\<rparr>]"
  define g where "g = group_node ''routes-group'' ''Routes'' (map_indexed route_node rs)"
  have rs: "routes example_manifest = Some rs"
    by (simp add: example_manifest_def rs_def)
  have g_in: "g \<in> set (buildTree example_manifest toggles_on)"
    by (simp add: buildTree_cases rs g_def toggles_on_def) (simp add: rs_def)
  have g_sel: "node_id g = ''routes-group''" "node_children g = Some (map_indexed route_node rs)"
    by (simp_all add: g_def group_node_sel)
  have len: "Suc 0 < length (map_indexed route_node rs)"
    by (simp add: map_indexed_length rs_def)
  from t have "\<forall>T g cs i. g \<in> set (buildTree example_manifest T) \<and> node_id g = ''routes-group'' \<and>
        node_children g = Some cs \<and> i < length cs \<longrightarrow>
      (\<exists>rs. routes example_manifest = Some rs \<and> i < length rs \<and>
         getNode example_manifest (node_id (cs ! i)) =
           Some \<lparr>ref_type = ''route'', ref_data = Some (RouteData (rs ! i))\<rparr>)"
    by (elim conjE)
  with g_in g_sel len obtain rs' where rs': "routes example_manifest = Some rs'"
    and gn: "getNode example_manifest (node_id (map_indexed route_node rs ! Suc 0)) =
           Some \<lparr>ref_type = ''route'', ref_data = Some (RouteData (rs' ! Suc 0))\<rparr>"
    by blast
  from rs rs' have same: "rs' = rs" by simp
  have nid: "node_id (map_indexed route_node rs ! Suc 0) = ''route-1''"
    by (simp add: map_indexed_nth rs_def route_node_sel toString_nat_Suc_0)
  have elt: "rs ! Suc 0 = \<lparr>route_method = ''POST'', route_path = ''/b'',
                                       route_functionName = ''post-b''\<rparr>"
    by (simp add: rs_def)
  from gn have first: "getNode example_manifest ''route-1'' =
     Some \<lparr>ref_type = ''route'',
           ref_data = Some (RouteData \<lparr>route_method = ''POST'', route_path = ''/b'',
                                       route_functionName = ''post-b''\<rparr>)\<rparr>"
    by (simp only: nid same elt)
  from t have "\<forall>nid. getNode example_manifest nid = None \<longleftrightarrow>
        \<not> prefix ''route-'' nid \<and> \<not> prefix ''lambda-'' nid \<and> \<not> prefix ''table-'' nid"
    by (elim conjE)
  then have second: "getNode example_manifest ''routes-group'' = None"
    by simp
  from t have "\<forall>i. length (or_empty (tables example_manifest)) \<le> i \<longrightarrow>
        getNode example_manifest (''table-'' @ toString_nat i) =
          Some \<lparr>ref_type = ''table'', ref_data = None\<rparr>"
    by (elim conjE)
  moreover have "length (or_empty (tables example_manifest)) \<le> 0"
    by (simp add: example_manifest_def or_empty_def)
  ultimately have "getNode example_manifest (''table-'' @ toString_nat 0) =
          Some \<lparr>ref_type = ''table'', ref_data = None\<rparr>"
    by blast
  then have third: "getNode example_manifest ''table-0'' = Some \<lparr>ref_type = ''table'', ref_data = None\<rparr>"
    by (simp add: toString_nat_0)
  from first second third show ?thesis by (intro conjI)
qed

section \<open>The file linker: \<^verbatim>\<open>getLinkPath\<close>\<close>

text \<open>
  Claim C5. \<^verbatim>\<open>getLinkPath("route", "GET /api/users")\<close> and, with the method defaulted
  to \<^verbatim>\<open>get\<close>, \<^verbatim>\<open>getLinkPath("route", "/api/users")\<close> are both
  \<^verbatim>\<open>src/http/get-api-users/index.mjs\<close>; \<^verbatim>\<open>getLinkPath("lambda", "notifier")\<close> is
  \<^verbatim>\<open>src/lambdas/notifier\<close>; \<^verbatim>\<open>getLinkPath("table", "users")\<close> is
  \<^verbatim>\<open>src/tables/users.ts\<close>; and the result is \<^verbatim>\<open>null\<close> exactly for the node types
  other than \<^verbatim>\<open>route\<close>, \<^verbatim>\<open>lambda\<close> and \<^verbatim>\<open>table\<close>.
\<close>

theorem getLinkPath_examples:
  "getLinkPath ''route'' ''GET /api/users'' = Some ''src/http/get-api-users/index.mjs''
   \<and> getLinkPath ''route'' ''/api/users'' = Some ''src/http/get-api-users/index.mjs''
   \<and> getLinkPath ''lambda'' ''notifier'' = Some ''src/lambdas/notifier''
   \<and> getLinkPath ''table'' ''users'' = Some ''src/tables/users.ts''
   \<and> (\<forall>nodeType nodeName.
        getLinkPath nodeType nodeName = None \<longleftrightarrow>
          nodeType \<noteq> ''route'' \<and> nodeType \<noteq> ''lambda'' \<and> nodeType \<noteq> ''table'')"
proof (intro conjI allI)
  show "getLinkPath ''route'' ''GET /api/users'' = Some ''src/http/get-api-users/index.mjs''"
    by code_simp
  show "getLinkPath ''route'' ''/api/users'' = Some ''src/http/get-api-users/index.mjs''"
    by code_simp
  show "getLinkPath ''lambda'' ''notifier'' = Some ''src/lambdas/notifier''"
    by (simp add: getLinkPath_def)
  show "getLinkPath ''table'' ''users'' = Some ''src/tables/users.ts''"
    by (simp add: getLinkPath_def)
  show "getLinkPath nodeType nodeName = None \<longleftrightarrow>
          nodeType \<noteq> ''route'' \<and> nodeType \<noteq> ''lambda'' \<and> nodeType \<noteq> ''table''"
    for nodeType nodeName
    by (simp add: getLinkPath_def)
qed

section \<open>The search index: \<^verbatim>\<open>search\<close>\<close>










section \<open>The tree renderer: \<^verbatim>\<open>renderNode\<close>\<close>

lemma includes_str_absent: "c \<notin> set s \<Longrightarrow> \<not> includes_str s (c # q)"
  by (induction s) auto

lemma not_decimal_g: "\<not> is_decimal CHR ''g''"
  by (simp add: is_decimal_def)

lemma route_id_not_group: "\<not> includes_str (''route-'' @ toString_nat idx) ''-group''"
proof -
  have "\<not> prefix ''group'' (toString_nat idx)"
  proof
    assume "prefix ''group'' (toString_nat idx)"
    then have "CHR ''g'' \<in> set (toString_nat idx)" by (auto simp: prefix_def)
    with toString_nat_decimal [of idx] not_decimal_g show False by blast
  qed
  moreover have "\<not> includes_str (toString_nat idx) ''-group''"
    by (rule includes_str_absent) (rule toString_nat_no_dash)
  ultimately show ?thesis by simp
qed

lemma escape_char_no_angle:
  "CHR ''<'' \<notin> set (escape_char c)" "CHR ''>'' \<notin> set (escape_char c)"
  by (simp_all add: escape_char_def)

lemma escapeHtml_no_angle:
  "CHR ''<'' \<notin> set (escapeHtml s) \<and> CHR ''>'' \<notin> set (escapeHtml s)"
  by (induction s rule: escapeHtml.induct) (simp_all add: escape_char_no_angle)

lemma escape_char_quote:
  "filter (\<lambda>c. c = CHR 0x22) (escape_char c) = filter (\<lambda>c. c = CHR 0x22) [c]"
  by (simp add: escape_char_def)

lemma escapeHtml_quote:
  "filter (\<lambda>c. c = CHR 0x22) (escapeHtml s) = filter (\<lambda>c. c = CHR 0x22) s"
proof (induction s rule: escapeHtml.induct)
  case 1
  then show ?case by simp
next
  case (2 c)
  then show ?case by (simp add: escape_char_def)
next
  case (3 c d cs)
  show ?case
  proof (cases "c = CHR 0xC2 \<and> d = CHR 0xA0")
    case True
    with 3 show ?thesis by simp
  next
    case False
    then have e: "escapeHtml (c # d # cs) = escape_char c @ escapeHtml (d # cs)"
      by auto
    from False 3 have ih: "filter (\<lambda>c. c = CHR 0x22) (escapeHtml (d # cs)) =
        filter (\<lambda>c. c = CHR 0x22) (d # cs)"
      by simp
    have "filter (\<lambda>c. c = CHR 0x22) (escapeHtml (c # d # cs)) =
        filter (\<lambda>c. c = CHR 0x22) (escape_char c) @ filter (\<lambda>c. c = CHR 0x22) (escapeHtml (d # cs))"
      by (simp only: e filter_append)
    also have "\<dots> = filter (\<lambda>c. c = CHR 0x22) [c] @ filter (\<lambda>c. c = CHR 0x22) (d # cs)"
      by (simp only: escape_char_quote ih)
    also have "\<dots> = filter (\<lambda>c. c = CHR 0x22) (c # d # cs)"
      by simp
    finally show ?thesis .
  qed
qed

lemma escapeHtml_Cons:
  "c \<noteq> CHR 0xC2 \<Longrightarrow> escapeHtml (c # b) = escape_char c @ escapeHtml b"
  by (cases b) simp_all

lemma escapeHtml_at:
  assumes "c \<noteq> CHR 0xC2" and "c \<noteq> CHR 0xA0"
  shows "escapeHtml (a @ c # b) = escapeHtml a @ escape_char c @ escapeHtml b"
proof (induction a rule: escapeHtml.induct)
  case 1
  show ?case using assms(1) by (simp add: escapeHtml_Cons)
next
  case (2 x)
  show ?case using assms by (simp add: escapeHtml_Cons)
next
  case (3 x y zs)
  show ?case
  proof (cases "x = CHR 0xC2 \<and> y = CHR 0xA0")
    case True
    with 3 show ?thesis by simp
  next
    case False
    with 3 have "escapeHtml ((y # zs) @ c # b) = escapeHtml (y # zs) @ escape_char c @ escapeHtml b"
      by simp
    with False show ?thesis by auto
  qed
qed

lemma renderNode_route:
  \<open>renderNode inherited (route_node idx r) depth =
     nl 6 @ ''<li class="tree-node " data-node-id="route-'' @ toString_nat idx @ ''">''
     @ nl 8 @ ''<div class="tree-node-content" data-node-id="route-'' @ toString_nat idx @ ''">''
     @ nl 10 @ ''<span class="tree-toggle-empty">'' @ glyph_bullet @ ''</span>''
     @ nl 10 @ ''<span class="tree-icon">'' @ glyph_route @ ''</span>''
     @ nl 10 @ ''<span class="tree-label">''
         @ escapeHtml (route_method r @ '' '' @ route_path r) @ ''</span>''
     @ nl 10 @ ''<button class="copy-btn" data-value="'' @ route_method r @ '' '' @ route_path r
         @ ''" title="Copy route">'' @ glyph_clipboard @ ''</button>''
     @ nl 8 @ ''</div>''
     @ nl 8
     @ nl 6 @ ''</li>''
     @ nl 4\<close>
  using route_id_not_group [of idx]
  by (simp add: route_node_def Let_def getNodeIcon_def template_str_def)


text \<open>
  Claim C10, as the code has it. For every route node of \<open>buildTree\<close>, the markup of
  \<open>renderNode\<close> has the label \<^verbatim>\<open>{method} {path}\<close> passed through \<open>escapeHtml\<close> inside
  the label span, and the method and the path verbatim, with no escaping, inside the
  \<^verbatim>\<open>data-value\<close> attribute of the copy control. Wherever a \<^verbatim>\<open>&\<close>, a \<^verbatim>\<open><\<close> or a
  \<^verbatim>\<open>>\<close> stands in a text, \<open>escapeHtml\<close> writes its entity there and escapes what is
  before and after it on its own; wherever a double quote stands, it writes the double
  quote. So no \<^verbatim>\<open><\<close> and no \<^verbatim>\<open>>\<close> is left in the label, and a double quote is
  unescaped in the label and in the attribute alike.
\<close>

theorem renderNode_route_markup:
  \<open>(\<forall>inherited idx r depth.
      renderNode inherited (route_node idx r) depth =
        nl 6 @ ''<li class="tree-node " data-node-id="route-'' @ toString_nat idx @ ''">''
        @ nl 8 @ ''<div class="tree-node-content" data-node-id="route-'' @ toString_nat idx @ ''">''
        @ nl 10 @ ''<span class="tree-toggle-empty">'' @ glyph_bullet @ ''</span>''
        @ nl 10 @ ''<span class="tree-icon">'' @ glyph_route @ ''</span>''
        @ nl 10 @ ''<span class="tree-label">''
            @ escapeHtml (route_method r @ '' '' @ route_path r) @ ''</span>''
        @ nl 10 @ ''<button class="copy-btn" data-value="'' @ route_method r @ '' '' @ route_path r
            @ ''" title="Copy route">'' @ glyph_clipboard @ ''</button>''
        @ nl 8 @ ''</div>''
        @ nl 8
        @ nl 6 @ ''</li>''
        @ nl 4)
   \<and> (\<forall>a b. escapeHtml (a @ CHR ''&'' # b) = escapeHtml a @ ''&amp;'' @ escapeHtml b)
   \<and> (\<forall>a b. escapeHtml (a @ CHR ''<'' # b) = escapeHtml a @ ''&lt;'' @ escapeHtml b)
   \<and> (\<forall>a b. escapeHtml (a @ CHR ''>'' # b) = escapeHtml a @ ''&gt;'' @ escapeHtml b)
   \<and> (\<forall>a b. escapeHtml (a @ CHR 0x22 # b) = escapeHtml a @ CHR 0x22 # escapeHtml b)
   \<and> (\<forall>s. CHR ''<'' \<notin> set (escapeHtml s) \<and> CHR ''>'' \<notin> set (escapeHtml s))
   \<and> (\<forall>s. filter (\<lambda>c. c = CHR 0x22) (escapeHtml s) = filter (\<lambda>c. c = CHR 0x22) s)
   \<and> escapeHtml ''<a href="x">Q&A</a>'' = ''&lt;a href="x"&gt;Q&amp;A&lt;/a&gt;''\<close>
proof (intro conjI allI)
  show \<open>escapeHtml ''<a href="x">Q&A</a>'' = ''&lt;a href="x"&gt;Q&amp;A&lt;/a&gt;''\<close>
    by code_simp
  show "escapeHtml (a @ CHR ''&'' # b) = escapeHtml a @ ''&amp;'' @ escapeHtml b" for a b
    using escapeHtml_at [of "CHR ''&''" a b] by (simp add: escape_char_def)
  show "escapeHtml (a @ CHR ''<'' # b) = escapeHtml a @ ''&lt;'' @ escapeHtml b" for a b
    using escapeHtml_at [of "CHR ''<''" a b] by (simp add: escape_char_def)
  show "escapeHtml (a @ CHR ''>'' # b) = escapeHtml a @ ''&gt;'' @ escapeHtml b" for a b
    using escapeHtml_at [of "CHR ''>''" a b] by (simp add: escape_char_def)
  show "escapeHtml (a @ CHR 0x22 # b) = escapeHtml a @ CHR 0x22 # escapeHtml b" for a b
    using escapeHtml_at [of "CHR 0x22" a b] by (simp add: escape_char_def)
qed (rule renderNode_route escapeHtml_no_angle [THEN conjunct1]
      escapeHtml_no_angle [THEN conjunct2] escapeHtml_quote)+

text \<open>
  The claim as stated has a double quote escaped in the label. For the route
  \<^verbatim>\<open>GET /a"b\<close> the label span holds \<^verbatim>\<open>GET /a"b\<close> as it is, the same text that
  stands in the attribute.
\<close>

theorem renderNode_quote_counterexample:
  \<open>renderNode (\<lambda>name. None)
      (route_node 0 \<lparr>route_method = ''GET'', route_path = ''/a"b'', route_functionName = ''get-a''\<rparr>) 0 =
     nl 6 @ ''<li class="tree-node " data-node-id="route-0">''
     @ nl 8 @ ''<div class="tree-node-content" data-node-id="route-0">''
     @ nl 10 @ ''<span class="tree-toggle-empty">'' @ glyph_bullet @ ''</span>''
     @ nl 10 @ ''<span class="tree-icon">'' @ glyph_route @ ''</span>''
     @ nl 10 @ ''<span class="tree-label">GET /a"b</span>''
     @ nl 10 @ ''<button class="copy-btn" data-value="GET /a"b" title="Copy route">''
         @ glyph_clipboard @ ''</button>''
     @ nl 8 @ ''</div>''
     @ nl 8
     @ nl 6 @ ''</li>''
     @ nl 4\<close>
  by code_simp

section \<open>The clipboard helper: \<^verbatim>\<open>copy\<close> and \<^verbatim>\<open>copyArn\<close>\<close>

lemma body_showToast:
  "body (showToast obj m t d) =
     body d @ (case toastContainer obj of
                 None \<Rightarrow> [Toast (next_id d) (''arc-toast arc-toast-'' @ t) m]
               | Some c \<Rightarrow> [])"
  by (simp add: showToast_def Let_def appendChild_body_def appendChild_other_def
      split: option.splits)

lemma showToast_appends:
  "\<exists>ts. body (showToast obj m t d) = body d @ ts \<and> list_all (\<lambda>e. elem_id e = next_id d) ts"
  by (cases "toastContainer obj") (simp_all add: body_showToast)

lemma execCommand_try_appends:
  "\<exists>ts. body (snd (execCommand_try p obj text d)) = body d @ ts \<and>
        list_all (\<lambda>e. elem_id e = next_id d) ts"
proof (cases "execCommand_copy p")
  case (Inl error)
  then show ?thesis
    using showToast_appends [of obj "''Failed to copy''" "''error''" d]
    by (simp add: execCommand_try_def)
next
  case (Inr successful)
  show ?thesis
  proof (cases successful)
    case True
    with Inr show ?thesis
      using showToast_appends [of obj "''Copied: '' @ text" "''success''" "d\<lparr>clipboard := Some text\<rparr>"]
      by (simp add: execCommand_try_def)
  next
    case False
    with Inr show ?thesis
      using showToast_appends [of obj "''Failed to copy''" "''error''" d]
      by (simp add: execCommand_try_def)
  qed
qed

lemma execCommand_try_result:
  "fst (execCommand_try p obj text d) \<longleftrightarrow> execCommand_copy p = Inr True"
  by (simp add: execCommand_try_def split: sum.splits)

lemma copyUsingExecCommand_removes:
  assumes "dom_ok d"
  shows "\<exists>successful d'. copyUsingExecCommand p obj text d = (Inr successful, d') \<and>
           (successful \<longleftrightarrow> execCommand_copy p = Inr True) \<and>
           next_id d \<notin> elem_id ` set (body d')"
proof -
  define textarea where "textarea = Textarea (next_id d) text"
  define d1 where "d1 = appendChild_body textarea (d\<lparr>next_id := next_id d + 1\<rparr>)"
  define d2 where "d2 = snd (execCommand_try p obj text d1)"
  define successful where "successful = fst (execCommand_try p obj text d1)"
  have old: "next_id d \<notin> elem_id ` set (body d)"
    using assms by (auto simp: dom_ok_def list_all_iff)
  have fresh: "textarea \<notin> set (body d)"
  proof
    assume "textarea \<in> set (body d)"
    then have "elem_id textarea \<in> elem_id ` set (body d)" by (rule imageI)
    with old show False by (simp add: textarea_def)
  qed
  have b1: "body d1 = body d @ [textarea]" and n1: "next_id d1 = next_id d + 1"
    by (simp_all add: d1_def appendChild_body_def)
  from execCommand_try_appends [of p obj "text" d1] obtain ts
    where b2: "body d2 = body d @ textarea # ts"
      and ts: "list_all (\<lambda>e. elem_id e = next_id d + 1) ts"
    by (auto simp: d2_def b1 n1)
  have rm: "removeChild_body textarea d2 = Inr (d2\<lparr>body := body d @ ts\<rparr>)"
    using fresh by (simp add: removeChild_body_def b2 remove1_append)
  have res: "copyUsingExecCommand p obj text d = (Inr successful, d2\<lparr>body := body d @ ts\<rparr>)"
    using rm
    by (simp add: copyUsingExecCommand_def Let_def split_beta textarea_def d1_def d2_def
        successful_def)
  have "next_id d \<notin> elem_id ` set ts"
    using ts by (auto simp: list_all_iff)
  with old have "next_id d \<notin> elem_id ` set (body (d2\<lparr>body := body d @ ts\<rparr>))"
    by auto
  moreover have "successful \<longleftrightarrow> execCommand_copy p = Inr True"
    by (simp add: successful_def execCommand_try_result)
  ultimately show ?thesis using res by blast
qed

lemma copy_settles: "\<exists>b d'. copy p obj text d = (Inr b, d')"
  by (cases "fst (if has_clipboard p \<and> isSecureContext p
             then (if writeText_resolves p
                   then (Inr True,
                         showToast obj (''Copied: '' @ text) ''success'' (d\<lparr>clipboard := Some text\<rparr>))
                   else (Inl PlatformError, d))
             else copyUsingExecCommand p obj text d)")
    (auto simp: copy_def Let_def)

lemma copy_fallback_removes:
  assumes "dom_ok d" and "\<not> (has_clipboard p \<and> isSecureContext p)"
  shows "next_id d \<notin> elem_id ` set (body (snd (copy p obj text d)))"
proof -
  from copyUsingExecCommand_removes [OF assms(1), of p obj "text"] obtain successful d'
    where "copyUsingExecCommand p obj text d = (Inr successful, d')"
      and "next_id d \<notin> elem_id ` set (body d')"
    by blast
  moreover from assms(2) have "(has_clipboard p \<and> isSecureContext p) = False" by simp
  ultimately show ?thesis by (simp only: copy_def Let_def if_False fst_conv snd_conv sum.case simp_thms)
qed


lemma showToast_clipboard: "clipboard (showToast obj m t d) = clipboard d"
  by (simp add: showToast_def Let_def appendChild_body_def appendChild_other_def
      split: option.splits)

lemma showToast_children:
  "toast_children obj (showToast obj m t d) =
     toast_children obj d @ [Toast (next_id d) (''arc-toast arc-toast-'' @ t) m]"
  by (simp add: toast_children_def showToast_def Let_def appendChild_body_def
      appendChild_other_def split: option.splits)

lemma execCommand_try_success:
  "execCommand_copy p = Inr True \<Longrightarrow>
     execCommand_try p obj text d =
       (True, showToast obj (''Copied: '' @ text) ''success'' (d\<lparr>clipboard := Some text\<rparr>))"
  by (simp add: execCommand_try_def)

lemma execCommand_try_failure:
  "execCommand_copy p \<noteq> Inr True \<Longrightarrow>
     execCommand_try p obj text d = (False, showToast obj ''Failed to copy'' ''error'' d)"
  by (cases "execCommand_copy p") (auto simp: execCommand_try_def)

lemma copyUsingExecCommand_value:
  "copyUsingExecCommand p obj text d =
     (Inr (fst (execCommand_try p obj text
              (appendChild_body (Textarea (next_id d) text) (d\<lparr>next_id := next_id d + 1\<rparr>)))),
      (snd (execCommand_try p obj text
              (appendChild_body (Textarea (next_id d) text) (d\<lparr>next_id := next_id d + 1\<rparr>))))
        \<lparr>body := remove1 (Textarea (next_id d) text)
           (body (snd (execCommand_try p obj text
              (appendChild_body (Textarea (next_id d) text) (d\<lparr>next_id := next_id d + 1\<rparr>)))))\<rparr>)"
proof -
  define d1 where "d1 = appendChild_body (Textarea (next_id d) text) (d\<lparr>next_id := next_id d + 1\<rparr>)"
  from execCommand_try_appends [of p obj "text" d1] obtain ts
    where "body (snd (execCommand_try p obj text d1)) = body d1 @ ts" by blast
  then have "Textarea (next_id d) text \<in> set (body (snd (execCommand_try p obj text d1)))"
    by (simp add: d1_def appendChild_body_def)
  then show ?thesis
    unfolding d1_def
    by (simp add: copyUsingExecCommand_def Let_def split_beta removeChild_body_def)
qed

lemma copyUsingExecCommand_outcome:
  "fst (copyUsingExecCommand p obj text d) = Inr (execCommand_copy p = Inr True)"
  "clipboard (snd (copyUsingExecCommand p obj text d)) =
     (if execCommand_copy p = Inr True then Some text else clipboard d)"
  "execCommand_copy p = Inr True \<Longrightarrow>
     \<exists>n. Toast n ''arc-toast arc-toast-success'' (''Copied: '' @ text)
       \<in> set (toast_children obj (snd (copyUsingExecCommand p obj text d)))"
  "execCommand_copy p \<noteq> Inr True \<Longrightarrow>
     \<exists>n. Toast n ''arc-toast arc-toast-error'' ''Failed to copy''
       \<in> set (toast_children obj (snd (copyUsingExecCommand p obj text d)))"
proof -
  show "fst (copyUsingExecCommand p obj text d) = Inr (execCommand_copy p = Inr True)"
    by (cases "execCommand_copy p = Inr True")
      (simp_all add: copyUsingExecCommand_value execCommand_try_success execCommand_try_failure)
  show "clipboard (snd (copyUsingExecCommand p obj text d)) =
     (if execCommand_copy p = Inr True then Some text else clipboard d)"
    by (cases "execCommand_copy p = Inr True")
      (simp_all add: copyUsingExecCommand_value execCommand_try_success execCommand_try_failure
        showToast_clipboard appendChild_body_def)
  have keep: "e \<in> set (toast_children obj s) \<Longrightarrow> e \<noteq> ta \<Longrightarrow>
      e \<in> set (toast_children obj (s\<lparr>body := remove1 ta (body s)\<rparr>))" for e ta s
    by (cases "toastContainer obj") (simp_all add: toast_children_def)
  show "\<exists>n. Toast n ''arc-toast arc-toast-success'' (''Copied: '' @ text)
       \<in> set (toast_children obj (snd (copyUsingExecCommand p obj text d)))"
    if "execCommand_copy p = Inr True"
    using that
    by (auto simp: copyUsingExecCommand_value execCommand_try_success showToast_children
        intro!: exI keep)
  show "\<exists>n. Toast n ''arc-toast arc-toast-error'' ''Failed to copy''
       \<in> set (toast_children obj (snd (copyUsingExecCommand p obj text d)))"
    if "execCommand_copy p \<noteq> Inr True"
    using that
    by (auto simp: copyUsingExecCommand_value execCommand_try_failure showToast_children
        intro!: exI keep)
qed


lemma copy_platform_resolves:
  "has_clipboard p \<Longrightarrow> isSecureContext p \<Longrightarrow> writeText_resolves p \<Longrightarrow>
     copy p obj text d =
       (Inr True, showToast obj (''Copied: '' @ text) ''success'' (d\<lparr>clipboard := Some text\<rparr>))"
  by (simp add: copy_def)

lemma copy_platform_rejects:
  "has_clipboard p \<Longrightarrow> isSecureContext p \<Longrightarrow> \<not> writeText_resolves p \<Longrightarrow>
     copy p obj text d = (Inr False, showToast obj ''Failed to copy'' ''error'' d)"
  by (simp add: copy_def)

lemma copy_fallback:
  assumes "\<not> (has_clipboard p \<and> isSecureContext p)"
  shows "copy p obj text d = copyUsingExecCommand p obj text d"
proof -
  from assms have c: "(has_clipboard p \<and> isSecureContext p) = False" by simp
  have "fst (copyUsingExecCommand p obj text d) = Inr (execCommand_copy p = Inr True)"
    by (rule copyUsingExecCommand_outcome)
  then show ?thesis
    by (simp add: copy_def Let_def c prod_eq_iff)
qed

lemma copy_outcome:
  "fst (copy p obj text d) =
     Inr (if has_clipboard p \<and> isSecureContext p then writeText_resolves p
          else execCommand_copy p = Inr True)"
  "clipboard (snd (copy p obj text d)) =
     (if fst (copy p obj text d) = Inr True then Some text else clipboard d)"
  "\<exists>n. (if fst (copy p obj text d) = Inr True
        then Toast n ''arc-toast arc-toast-success'' (''Copied: '' @ text)
        else Toast n ''arc-toast arc-toast-error'' ''Failed to copy'')
       \<in> set (toast_children obj (snd (copy p obj text d)))"
proof -
  consider (resolves) "has_clipboard p" "isSecureContext p" "writeText_resolves p"
    | (rejects) "has_clipboard p" "isSecureContext p" "\<not> writeText_resolves p"
    | (fallback) "\<not> (has_clipboard p \<and> isSecureContext p)"
    by blast
  then have "fst (copy p obj text d) =
     Inr (if has_clipboard p \<and> isSecureContext p then writeText_resolves p
          else execCommand_copy p = Inr True)
    \<and> clipboard (snd (copy p obj text d)) =
     (if fst (copy p obj text d) = Inr True then Some text else clipboard d)
    \<and> (\<exists>n. (if fst (copy p obj text d) = Inr True
        then Toast n ''arc-toast arc-toast-success'' (''Copied: '' @ text)
        else Toast n ''arc-toast arc-toast-error'' ''Failed to copy'')
       \<in> set (toast_children obj (snd (copy p obj text d))))"
  proof cases
    case resolves
    then show ?thesis
      by (auto simp: copy_platform_resolves showToast_clipboard showToast_children)
  next
    case rejects
    then show ?thesis
      by (auto simp: copy_platform_rejects showToast_clipboard showToast_children)
  next
    case fallback
    then have c: "(has_clipboard p \<and> isSecureContext p) = False" by simp
    show ?thesis
    proof (cases "execCommand_copy p = Inr True")
      case True
      with copyUsingExecCommand_outcome(3) [of p "text" obj d] show ?thesis
        by (simp add: copy_fallback [OF fallback] copyUsingExecCommand_outcome(1,2) c)
    next
      case False
      with copyUsingExecCommand_outcome(4) [of p obj "text" d] show ?thesis
        by (simp add: copy_fallback [OF fallback] copyUsingExecCommand_outcome(1,2) c)
    qed
  qed
  then show "fst (copy p obj text d) =
     Inr (if has_clipboard p \<and> isSecureContext p then writeText_resolves p
          else execCommand_copy p = Inr True)"
    and "clipboard (snd (copy p obj text d)) =
     (if fst (copy p obj text d) = Inr True then Some text else clipboard d)"
    and "\<exists>n. (if fst (copy p obj text d) = Inr True
        then Toast n ''arc-toast arc-toast-success'' (''Copied: '' @ text)
        else Toast n ''arc-toast arc-toast-error'' ''Failed to copy'')
       \<in> set (toast_children obj (snd (copy p obj text d)))"
    by blast+
qed

text \<open>
  Claim C6. For every text, on every platform and document, the promise of \<open>copy\<close>
  settles to a boolean and never to an error. The boolean says whether the copy
  succeeded: it is true exactly when, on the platform path (a clipboard API in a secure
  context), \<^verbatim>\<open>writeText\<close> resolved, or, on the fallback path, \<^verbatim>\<open>execCommand\<close> returned
  true. When it is true the text is on the clipboard and a success toast with the text
  is shown; when it is false the clipboard is as before and the error toast is shown.
  In the fallback \<open>copyUsingExecCommand\<close>, started on a document whose elements are older
  than the next fresh one, the text area it appends is no longer a child of the body when
  it returns, whatever \<^verbatim>\<open>execCommand\<close> did (returned true, returned false or threw);
  the value returned is true exactly when \<^verbatim>\<open>execCommand\<close> returned true. The same
  holds for \<open>copy\<close> when it takes the fallback path.
\<close>

theorem copy_never_throws:
  "(\<exists>b d'. copy p obj text d = (Inr b, d'))
   \<and> fst (copy p obj text d) =
       Inr (if has_clipboard p \<and> isSecureContext p then writeText_resolves p
            else execCommand_copy p = Inr True)
   \<and> clipboard (snd (copy p obj text d)) =
       (if fst (copy p obj text d) = Inr True then Some text else clipboard d)
   \<and> (\<exists>n. (if fst (copy p obj text d) = Inr True
             then Toast n ''arc-toast arc-toast-success'' (''Copied: '' @ text)
             else Toast n ''arc-toast arc-toast-error'' ''Failed to copy'')
            \<in> set (toast_children obj (snd (copy p obj text d))))
   \<and> (dom_ok d \<longrightarrow>
        (\<exists>successful d'. copyUsingExecCommand p obj text d = (Inr successful, d') \<and>
           (successful \<longleftrightarrow> execCommand_copy p = Inr True) \<and>
           next_id d \<notin> elem_id ` set (body d')))
   \<and> (dom_ok d \<and> \<not> (has_clipboard p \<and> isSecureContext p) \<longrightarrow>
        next_id d \<notin> elem_id ` set (body (snd (copy p obj text d))))"
  using copy_settles [of p obj "text" d] copyUsingExecCommand_removes [of d p obj "text"]
    copy_fallback_removes [of d p obj "text"] copy_outcome [of p obj "text" d]
  by (intro conjI impI) simp_all

text \<open>
  The theorem on an insecure page whose \<^verbatim>\<open>execCommand\<close> throws: \<open>copy\<close> settles to
  false, the clipboard stays empty, and no element with the number of the text area is
  left in the body.
\<close>

theorem copy_never_throws_witness:
  "dom_ok example_dom
   \<and> fst (copy example_platform example_copier ''GET /a'' example_dom) = Inr False
   \<and> clipboard (snd (copy example_platform example_copier ''GET /a'' example_dom)) = None
   \<and> fst (copyUsingExecCommand example_platform example_copier ''GET /a'' example_dom) = Inr False
   \<and> 1 \<notin> elem_id ` set (body (snd (copy example_platform example_copier ''GET /a'' example_dom)))"
proof -
  note t = copy_never_throws [of example_platform example_copier "''GET /a''" example_dom]
  have ok: "dom_ok example_dom"
    by (simp add: dom_ok_def example_dom_def)
  have insecure: "\<not> (has_clipboard example_platform \<and> isSecureContext example_platform)"
    by (simp add: example_platform_def)
  have n: "next_id example_dom = 1"
    by (simp add: example_dom_def)
  have thrown: "execCommand_copy example_platform \<noteq> Inr True"
    by (simp add: example_platform_def)
  from t have "fst (copy example_platform example_copier ''GET /a'' example_dom) =
       Inr (if has_clipboard example_platform \<and> isSecureContext example_platform
            then writeText_resolves example_platform
            else execCommand_copy example_platform = Inr True)"
    by (elim conjE)
  moreover have "(has_clipboard example_platform \<and> isSecureContext example_platform) = False"
    by (simp add: example_platform_def)
  ultimately have first:
    "fst (copy example_platform example_copier ''GET /a'' example_dom) = Inr False"
    using thrown by simp
  from t have "clipboard (snd (copy example_platform example_copier ''GET /a'' example_dom)) =
       (if fst (copy example_platform example_copier ''GET /a'' example_dom) = Inr True
        then Some ''GET /a'' else clipboard example_dom)"
    by (elim conjE)
  with first have clip:
    "clipboard (snd (copy example_platform example_copier ''GET /a'' example_dom)) = None"
    by (simp add: example_dom_def)
  from t ok obtain successful d' where
    "copyUsingExecCommand example_platform example_copier ''GET /a'' example_dom = (Inr successful, d')"
    "successful \<longleftrightarrow> execCommand_copy example_platform = Inr True"
    by blast
  with thrown have second:
    "fst (copyUsingExecCommand example_platform example_copier ''GET /a'' example_dom) = Inr False"
    by simp
  from t ok insecure n have third:
    "1 \<notin> elem_id ` set (body (snd (copy example_platform example_copier ''GET /a'' example_dom)))"
    by simp
  from ok first clip second third show ?thesis by (intro conjI)
qed

text \<open>
  Claim C7. For every method and path, \<open>copyArn\<close> builds exactly the string
  \<^verbatim>\<open>arn:arc:route:{method}:{path}\<close> and copies it; for any two values of the region
  argument, passed or defaulted, the string built and the whole effect of \<open>copyArn\<close> are
  the same.
\<close>

theorem copyArn_ignores_region:
  "arn_of method path region = ''arn:arc:route:'' @ method @ '':'' @ path
   \<and> arn_of method path region = arn_of method path region'
   \<and> copyArn p obj method path region d = copy p obj (''arn:arc:route:'' @ method @ '':'' @ path) d
   \<and> copyArn p obj method path region d = copyArn p obj method path region' d"
  by (simp add: copyArn_def arn_of_def)

section \<open>The live watcher: the polling path\<close>

lemma fresh_polling_waiting: "waiting_for_poll (fresh_polling :: 'd arcWatcher)"
  by (simp add: fresh_polling_def start_def new_ArcWatcher_def tryWebSocketConnection_def
      startPolling_def waiting_for_poll_def)

lemma fresh_polling_fields:
  "handled (fresh_polling :: 'd arcWatcher) = []" "lastData (fresh_polling :: 'd arcWatcher) = None"
  by (simp_all add: fresh_polling_def start_def new_ArcWatcher_def tryWebSocketConnection_def
      startPolling_def)

lemma waiting_polling: "waiting_for_poll s \<Longrightarrow> polling s"
  by (auto simp: waiting_for_poll_def polling_def split: option.splits)

lemma fresh_polling_polling: "polling (fresh_polling :: 'd arcWatcher)"
  by (rule waiting_polling) (rule fresh_polling_waiting)

lemma fresh_polling_after_error_polling: "polling (fresh_polling_after_error :: 'd arcWatcher)"
  by (simp add: fresh_polling_after_error_def start_def new_ArcWatcher_def
      tryWebSocketConnection_def ws_error_def startPolling_def polling_def)

lemma fresh_polling_after_error_fields:
  "handled (fresh_polling_after_error :: 'd arcWatcher) = []"
  "lastData (fresh_polling_after_error :: 'd arcWatcher) = None"
  by (simp_all add: fresh_polling_after_error_def start_def new_ArcWatcher_def
      tryWebSocketConnection_def ws_error_def startPolling_def)

lemma poll_once_step:
  assumes "polling s"
  shows "polling (poll_once f d s)"
    and "handled (poll_once f d s) = handled s @ (if lastData s \<noteq> Some (f d) then [d] else [])"
    and "lastData (poll_once f d s) = Some (f d)"
proof -
  from assms obtain t where t: "pollTimeout s = Some t" "t \<in> set (poll_timers s)"
    by (auto simp: polling_def split: option.splits)
  from assms have w: "isWatching s"
    by (simp add: polling_def)
  show "polling (poll_once f d s)"
    using t w
    by (simp add: poll_once_def poll_timer_fires_def fetch_settles_def startPolling_def
        handleArcChanged_def polling_def Let_def)
  show "handled (poll_once f d s) = handled s @ (if lastData s \<noteq> Some (f d) then [d] else [])"
    using t w
    by (simp add: poll_once_def poll_timer_fires_def fetch_settles_def startPolling_def
        handleArcChanged_def Let_def)
  show "lastData (poll_once f d s) = Some (f d)"
    using t w
    by (simp add: poll_once_def poll_timer_fires_def fetch_settles_def startPolling_def
        handleArcChanged_def Let_def)
qed

lemma poll_all_changes:
  "polling s \<Longrightarrow>
     handled (poll_all f ds s) = handled s @ changes f (lastData s) ds"
proof (induction ds arbitrary: s)
  case Nil
  then show ?case by simp
next
  case (Cons d ds)
  from Cons.prems have "polling (poll_once f d s)" by (rule poll_once_step)
  then have "handled (poll_all f ds (poll_once f d s)) =
      handled (poll_once f d s) @ changes f (lastData (poll_once f d s)) ds"
    by (rule Cons.IH)
  with Cons.prems show ?case
    by (simp add: poll_once_step)
qed

text \<open>
  Claim C2, as the code has it. On the polling path, for every sequence of successfully
  polled snapshots, \<^verbatim>\<open>handleArcChanged\<close> is called with exactly the snapshots whose
  serialised form differs from the last one observed, in order. This holds from every
  state of a watcher that is watching with its poll timer pending, whatever else the
  event loop holds for it, and so for a freshly started watcher on either way onto the
  polling path (the WebSocket constructor threw, or the socket's error listener ran). A
  freshly started watcher has observed no fingerprint, so its first snapshot always
  counts: for the sequence \<open>[A, A, B, B, C]\<close> with \<open>A\<close>, \<open>B\<close>, \<open>C\<close> serialised
  differently, it calls the handler three times, with \<open>A\<close>, \<open>B\<close> and \<open>C\<close>, and never on
  a repeat; a polling watcher that has already observed the fingerprint of \<open>A\<close> calls it
  twice, with \<open>B\<close> and \<open>C\<close>.
\<close>

theorem polling_fires_on_change:
  "handled (poll_all f ds fresh_polling) = changes f None ds
   \<and> handled (poll_all f ds fresh_polling_after_error) = changes f None ds
   \<and> (\<forall>s. polling s \<longrightarrow>
        handled (poll_all f ds s) = handled s @ changes f (lastData s) ds)
   \<and> (\<forall>s. waiting_for_poll s \<longrightarrow>
        handled (poll_all f ds s) = handled s @ changes f (lastData s) ds)
   \<and> (f A \<noteq> f B \<and> f B \<noteq> f C \<longrightarrow>
        handled (poll_all f [A, A, B, B, C] fresh_polling) = [A, B, C])
   \<and> (f A \<noteq> f B \<and> f B \<noteq> f C \<longrightarrow>
        handled (poll_all f [A, A, B, B, C] fresh_polling_after_error) = [A, B, C])
   \<and> (\<forall>s. polling s \<and> lastData s = Some (f A) \<and> f A \<noteq> f B \<and> f B \<noteq> f C \<longrightarrow>
        handled (poll_all f [A, A, B, B, C] s) = handled s @ [B, C])"
proof (intro conjI allI impI)
  show "handled (poll_all f ds fresh_polling) = changes f None ds"
    using poll_all_changes [OF fresh_polling_polling, of f ds]
    by (simp add: fresh_polling_fields)
next
  show "handled (poll_all f ds fresh_polling_after_error) = changes f None ds"
    using poll_all_changes [OF fresh_polling_after_error_polling, of f ds]
    by (simp add: fresh_polling_after_error_fields)
next
  fix s :: "'a arcWatcher"
  assume "polling s"
  then show "handled (poll_all f ds s) = handled s @ changes f (lastData s) ds"
    by (rule poll_all_changes)
next
  fix s :: "'a arcWatcher"
  assume "waiting_for_poll s"
  then have "polling s" by (rule waiting_polling)
  then show "handled (poll_all f ds s) = handled s @ changes f (lastData s) ds"
    by (rule poll_all_changes)
next
  assume "f A \<noteq> f B \<and> f B \<noteq> f C"
  then show "handled (poll_all f [A, A, B, B, C] fresh_polling) = [A, B, C]"
    using poll_all_changes [OF fresh_polling_polling, of f "[A, A, B, B, C]"]
    by (simp add: fresh_polling_fields)
next
  assume "f A \<noteq> f B \<and> f B \<noteq> f C"
  then show "handled (poll_all f [A, A, B, B, C] fresh_polling_after_error) = [A, B, C]"
    using poll_all_changes [OF fresh_polling_after_error_polling, of f "[A, A, B, B, C]"]
    by (simp add: fresh_polling_after_error_fields)
next
  fix s :: "'a arcWatcher"
  assume "polling s \<and> lastData s = Some (f A) \<and> f A \<noteq> f B \<and> f B \<noteq> f C"
  then show "handled (poll_all f [A, A, B, B, C] s) = handled s @ [B, C]"
    using poll_all_changes [of s f "[A, A, B, B, C]"] by simp
qed

text \<open>
  The claim as stated has the handler fire exactly twice for \<open>[A, A, B, B, C]\<close> on a
  freshly started watcher. With the snapshots serialised as themselves it fires three
  times: \<^verbatim>\<open>lastData\<close> starts as \<^verbatim>\<open>null\<close>, which differs from every fingerprint.
\<close>

theorem polling_first_poll_counterexample:
  "handled (poll_all (\<lambda>x. x) [''A'', ''A'', ''B'', ''B'', ''C''] fresh_polling) = [''A'', ''B'', ''C'']
   \<and> length (handled (poll_all (\<lambda>x. x) [''A'', ''A'', ''B'', ''B'', ''C''] fresh_polling)) = 3"
  by code_simp

text \<open>
  The theorem for the snapshots 7, 7, 8, 8, 9 serialised in decimal: on a freshly started
  watcher, on one whose socket failed, and on one that has polled 7 before.
\<close>

theorem polling_fires_on_change_witness:
  "handled (poll_all toString_nat [7, 7, 8, 8, 9] fresh_polling) = [7, 8, 9]
   \<and> handled (poll_all toString_nat [7, 7, 8, 8, 9] fresh_polling_after_error) = [7, 8, 9]
   \<and> handled (poll_all toString_nat [7, 7, 8, 8, 9] (poll_once toString_nat 7 fresh_polling)) = [7, 8, 9]"
proof -
  note t = polling_fires_on_change [of toString_nat "[7, 7, 8, 8, 9]" 7 8 9]
  have distinct: "toString_nat 7 \<noteq> toString_nat 8 \<and> toString_nat 8 \<noteq> toString_nat 9"
    by code_simp
  from t have "toString_nat 7 \<noteq> toString_nat 8 \<and> toString_nat 8 \<noteq> toString_nat 9 \<longrightarrow>
      handled (poll_all toString_nat [7, 7, 8, 8, 9] fresh_polling) = [7, 8, 9]"
    by (elim conjE)
  with distinct have first: "handled (poll_all toString_nat [7, 7, 8, 8, 9] fresh_polling) = [7, 8, 9]"
    by blast
  from t have "toString_nat 7 \<noteq> toString_nat 8 \<and> toString_nat 8 \<noteq> toString_nat 9 \<longrightarrow>
      handled (poll_all toString_nat [7, 7, 8, 8, 9] fresh_polling_after_error) = [7, 8, 9]"
    by (elim conjE)
  with distinct have after_error:
    "handled (poll_all toString_nat [7, 7, 8, 8, 9] fresh_polling_after_error) = [7, 8, 9]"
    by blast
  define s :: "nat arcWatcher" where "s = poll_once toString_nat 7 fresh_polling"
  have w: "polling s"
    unfolding s_def by (rule poll_once_step) (rule fresh_polling_polling)
  have l: "lastData s = Some (toString_nat 7)"
    unfolding s_def by (rule poll_once_step) (rule fresh_polling_polling)
  have h: "handled s = [7]"
    unfolding s_def using poll_once_step(2) [OF fresh_polling_polling, of toString_nat 7]
    by (simp add: fresh_polling_fields)
  from t have "\<forall>s. polling s \<and> lastData s = Some (toString_nat 7) \<and>
        toString_nat 7 \<noteq> toString_nat 8 \<and> toString_nat 8 \<noteq> toString_nat 9 \<longrightarrow>
        handled (poll_all toString_nat [7, 7, 8, 8, 9] s) = handled s @ [8, 9]"
    by (elim conjE)
  with w l distinct have "handled (poll_all toString_nat [7, 7, 8, 8, 9] s) = handled s @ [8, 9]"
    by blast
  with h have second: "handled (poll_all toString_nat [7, 7, 8, 8, 9] s) = [7, 8, 9]"
    by simp
  from first after_error second show ?thesis unfolding s_def by (intro conjI)
qed

section \<open>The live watcher: \<^verbatim>\<open>stop\<close>\<close>

lemma stop_not_watching: "\<not> isWatching (stop s)"
  by (simp add: stop_def Let_def split: option.splits)

lemma stop_idempotent: "stop (stop s) = stop s"
  using stop_not_watching [of s] by (simp add: stop_def [of "stop s"])

lemma stop_cancels:
  "isWatching s \<Longrightarrow> pollTimeout s = Some t \<Longrightarrow> 0 < t \<Longrightarrow>
     t \<notin> set (poll_timers (stop s)) \<and> pollTimeout (stop s) = None"
  by (simp add: stop_def Let_def)

lemma stop_keeps:
  "next_timer (stop s) = next_timer s" "handled (stop s) = handled s"
  by (simp_all add: stop_def Let_def split: option.splits)

lemma deliver_stopped:
  assumes "\<not> isWatching s"
  shows "\<not> isWatching (deliver f ev s)"
    and "next_timer (deliver f ev s) = next_timer s"
    and "set (poll_timers (deliver f ev s)) \<subseteq> set (poll_timers s)"
proof -
  show "\<not> isWatching (deliver f ev s)"
    using assms
    by (cases ev)
      (auto simp: poll_timer_fires_def fetch_settles_def ws_message_def ws_error_def ws_close_def
        reconnect_timer_fires_def tryWebSocketConnection_def startPolling_def
        handleArcChanged_def Let_def split: response.splits ws_message.splits)
  show "next_timer (deliver f ev s) = next_timer s"
    using assms
    by (cases ev)
      (auto simp: poll_timer_fires_def fetch_settles_def ws_message_def ws_error_def ws_close_def
        reconnect_timer_fires_def tryWebSocketConnection_def startPolling_def
        handleArcChanged_def Let_def split: response.splits ws_message.splits)
  show "set (poll_timers (deliver f ev s)) \<subseteq> set (poll_timers s)"
    using assms
    by (cases ev)
      (auto simp: poll_timer_fires_def fetch_settles_def ws_message_def ws_error_def ws_close_def
        reconnect_timer_fires_def tryWebSocketConnection_def startPolling_def
        handleArcChanged_def Let_def split: response.splits ws_message.splits)
qed

lemma run_stopped:
  "\<not> isWatching s \<Longrightarrow>
     \<not> isWatching (run f evs s) \<and> next_timer (run f evs s) = next_timer s \<and>
     set (poll_timers (run f evs s)) \<subseteq> set (poll_timers s)"
proof (induction evs arbitrary: s)
  case Nil
  then show ?case by simp
next
  case (Cons ev evs)
  from Cons.prems have d: "\<not> isWatching (deliver f ev s)"
    "next_timer (deliver f ev s) = next_timer s"
    "set (poll_timers (deliver f ev s)) \<subseteq> set (poll_timers s)"
    by (rule deliver_stopped)+
  from Cons.IH [OF d(1)] d(2,3) show ?case by auto
qed

lemma deliver_quiet: "quiet s \<Longrightarrow> deliver f ev s = s"
  by (cases ev)
    (simp_all add: quiet_def poll_timer_fires_def fetch_settles_def ws_message_def ws_error_def
      ws_close_def reconnect_timer_fires_def)

lemma run_quiet: "quiet s \<Longrightarrow> run f evs s = s"
  by (induction evs) (simp_all add: deliver_quiet)

lemma stop_waiting_quiet: "waiting_for_poll s \<Longrightarrow> quiet (stop s)"
  by (auto simp: waiting_for_poll_def quiet_def stop_def Let_def split: option.splits)


lemma stop_in_flight:
  "0 < in_flight s \<Longrightarrow> lastData s \<noteq> Some (f d) \<Longrightarrow>
     handled (deliver f (FetchSettles (Snapshot d)) (stop s)) = handled s @ [d]"
  by (simp add: stop_def fetch_settles_def startPolling_def handleArcChanged_def Let_def
      split: option.splits)


text \<open>
  Claim C3, as the code has it. \<open>stop\<close> is idempotent and leaves the watcher not
  watching. It clears the pending poll timer recorded in \<^verbatim>\<open>pollTimeout\<close>. After
  \<open>stop\<close>, whatever events arrive, no timer is set any more and no poll timer is added. On
  a polling watcher that is waiting for its poll timer (no fetch awaited, no socket, no
  reconnect timer), \<open>stop\<close> leaves nothing for the event loop to deliver: whatever
  happens afterwards, and whatever the data source returns, the watcher stays as it is and
  \<^verbatim>\<open>handleArcChanged\<close> is not called. A fetch that is awaited when \<open>stop\<close> is called
  is not aborted: when it brings a snapshot with a new fingerprint, the handler is called
  with it.
\<close>

theorem stop_silences:
  "stop (stop s) = stop s
   \<and> \<not> isWatching (stop s)
   \<and> (\<forall>t. isWatching s \<and> pollTimeout s = Some t \<and> 0 < t \<longrightarrow>
        t \<notin> set (poll_timers (stop s)) \<and> pollTimeout (stop s) = None)
   \<and> (\<forall>evs. next_timer (run f evs (stop s)) = next_timer s \<and>
        set (poll_timers (run f evs (stop s))) \<subseteq> set (poll_timers (stop s)))
   \<and> (waiting_for_poll s \<longrightarrow>
        (\<forall>evs. run f evs (stop s) = stop s \<and> handled (run f evs (stop s)) = handled s))
   \<and> (\<forall>d. 0 < in_flight s \<and> lastData s \<noteq> Some (f d) \<longrightarrow>
        handled (deliver f (FetchSettles (Snapshot d)) (stop s)) = handled s @ [d])"
proof (intro conjI allI impI)
  show "stop (stop s) = stop s" by (rule stop_idempotent)
  show "\<not> isWatching (stop s)" by (rule stop_not_watching)
next
  fix t assume "isWatching s \<and> pollTimeout s = Some t \<and> 0 < t"
  then show "t \<notin> set (poll_timers (stop s))" and "pollTimeout (stop s) = None"
    using stop_cancels [of s t] by simp_all
next
  fix evs
  show "next_timer (run f evs (stop s)) = next_timer s"
    and "set (poll_timers (run f evs (stop s))) \<subseteq> set (poll_timers (stop s))"
    using run_stopped [OF stop_not_watching, of f evs s] by (simp_all add: stop_keeps)
next
  fix evs assume "waiting_for_poll s"
  then have "quiet (stop s)" by (rule stop_waiting_quiet)
  then show "run f evs (stop s) = stop s" by (rule run_quiet)
  then show "handled (run f evs (stop s)) = handled s" by (simp add: stop_keeps)
next
  fix d assume "0 < in_flight s \<and> lastData s \<noteq> Some (f d)"
  then show "handled (deliver f (FetchSettles (Snapshot d)) (stop s)) = handled s @ [d]"
    using stop_in_flight [of s f d] by simp
qed

text \<open>
  The claim as stated has no handler call after \<open>stop\<close> on any polling watcher. A polling
  watcher whose timer has fired is waiting for its fetch; \<open>stop\<close> does not abort the
  fetch, and the callback does not look at \<^verbatim>\<open>isWatching\<close> when it resumes: the snapshot
  that arrives after \<open>stop\<close> is handed to the handler.
\<close>

theorem stop_in_flight_counterexample:
  "isWatching (poll_timer_fires 1 (fresh_polling :: string arcWatcher))
   \<and> handled (stop (poll_timer_fires 1 (fresh_polling :: string arcWatcher))) = []
   \<and> handled (run (\<lambda>x. x) [FetchSettles (Snapshot ''A'')]
        (stop (poll_timer_fires 1 fresh_polling))) = [''A'']"
  by code_simp

text \<open>
  The theorem on a freshly started polling watcher: after \<open>stop\<close> its timer is gone, and
  a late timer event, a fetch result and a socket message change nothing.
\<close>

theorem stop_silences_witness:
  "waiting_for_poll (fresh_polling :: nat arcWatcher)
   \<and> poll_timers (stop (fresh_polling :: nat arcWatcher)) = []
   \<and> handled (run toString_nat
        [PollTimerFires 1, FetchSettles (Snapshot 5), WsMessage (Message ''arc-changed'' 6)]
        (stop fresh_polling)) = []"
proof -
  note t = stop_silences [of "fresh_polling :: nat arcWatcher" toString_nat]
  have w: "waiting_for_poll (fresh_polling :: nat arcWatcher)"
    by (rule fresh_polling_waiting)
  have p: "isWatching (fresh_polling :: nat arcWatcher) \<and>
      pollTimeout (fresh_polling :: nat arcWatcher) = Some 1 \<and> (0::nat) < 1"
    "poll_timers (fresh_polling :: nat arcWatcher) = [1]"
    by (simp_all add: fresh_polling_def start_def new_ArcWatcher_def tryWebSocketConnection_def
        startPolling_def)
  from t p(1) have "1 \<notin> set (poll_timers (stop (fresh_polling :: nat arcWatcher)))"
    by blast
  moreover have "set (poll_timers (stop (fresh_polling :: nat arcWatcher))) \<subseteq> {1}"
    using p by (simp add: stop_def Let_def)
  ultimately have second: "poll_timers (stop (fresh_polling :: nat arcWatcher)) = []"
    by (cases "poll_timers (stop (fresh_polling :: nat arcWatcher))") auto
  from t w have "handled (run toString_nat
        [PollTimerFires 1, FetchSettles (Snapshot 5), WsMessage (Message ''arc-changed'' 6)]
        (stop fresh_polling)) = handled (fresh_polling :: nat arcWatcher)"
    by blast
  then have third: "handled (run toString_nat
        [PollTimerFires 1, FetchSettles (Snapshot 5), WsMessage (Message ''arc-changed'' 6)]
        (stop fresh_polling)) = []"
    by (simp add: fresh_polling_fields)
  from w second third show ?thesis by (intro conjI)
qed

section \<open>The tree renderer: the copy control\<close>

text \<open>
  Claim C8. Clicking the copy control copies its value and shows the copied label, and
  the timer puts the prior text back. On a copy error the control shows the failed
  label, and the claim has it revert likewise. The code of the error path, on the copy
  control of the route \<^verbatim>\<open>GET /a\<close> with a rejecting clipboard: the timer's callback
  reads \<^verbatim>\<open>originalText\<close>, which is declared inside the \<^verbatim>\<open>try\<close> block only, throws a
  \<^verbatim>\<open>ReferenceError\<close>, and the control keeps the failed label. The success path
  reverts.
\<close>

theorem copy_button_failure_not_reverted:
  "textContent (button (copy_click WriteRejects example_page)) = failed_label
   \<and> fst (timer_fires (copy_click WriteRejects example_page)) = Some ReferenceError
   \<and> textContent (button (snd (timer_fires (copy_click WriteRejects example_page)))) = failed_label
   \<and> failed_label \<noteq> textContent (button example_page)
   \<and> pending (snd (timer_fires (copy_click WriteRejects example_page))) = []
   \<and> textContent (button (copy_click WriteResolves example_page)) = copied_label
   \<and> page_clipboard (copy_click WriteResolves example_page) = Some ''GET /a''
   \<and> timer_fires (copy_click WriteResolves example_page) =
       (None, example_page\<lparr>page_clipboard := Some ''GET /a''\<rparr>)"
  by (simp add: copy_click_def timer_fires_def example_page_def failed_label_def Let_def
      copied_label_def glyph_clipboard_def)

end
